theory Spec2Isabelle
  imports Complex_Main "HOL-Library.Word"
begin

unbundle bit_operations_syntax

section \<open>Data model\<close>

text \<open>
  The types of \<^verbatim>\<open>./types\<close> (the tail of \<^verbatim>\<open>src/unnamed/part_000\<close>): the enum
  \<^verbatim>\<open>ChatRole\<close> and the interfaces \<^verbatim>\<open>GroundingSource\<close> and \<^verbatim>\<open>Message\<close>. The optional
  fields \<^verbatim>\<open>sources?\<close> and \<^verbatim>\<open>isLoading?\<close> are options. Field names that clash with a
  constant or a keyword of Isabelle carry a suffix (\<^verbatim>\<open>id\<close>, \<^verbatim>\<open>text\<close>, \<^verbatim>\<open>type\<close>). The \<^verbatim>\<open>id\<close> of a
  message is declared a string, but the cast \<^verbatim>\<open>userInputId as string\<close> of line 196 can
  store \<^verbatim>\<open>null\<close> in it when it is evaluated late; the field is therefore an option, with
  \<open>None\<close> for \<^verbatim>\<open>null\<close>, and \<^verbatim>\<open>===\<close> on identifiers is equality of options.

  A JavaScript string is modelled as a \<^typ>\<open>string\<close> of 8-bit characters, the code units
  U+0000 to U+00FF, where \<^verbatim>\<open>toLowerCase\<close>, \<^verbatim>\<open>trim\<close> and \<^verbatim>\<open>includes\<close> act character by
  character; code units above U+00FF are outside the model.
\<close>

datatype ChatRole = USER | AI | SYSTEM

datatype SourceType = SearchSource | MapsSource

record GroundingSource =
  title :: string
  uri :: string
  type_src :: SourceType

record Message =
  id_msg :: "string option"
  role :: ChatRole
  text_msg :: string
  sources :: "GroundingSource list option"
  isLoading_msg :: "bool option"

text \<open>
  Errors are values. \<^verbatim>\<open>TypeError\<close>, \<^verbatim>\<open>InvalidStateError\<close> and \<^verbatim>\<open>InvalidCharacterError\<close> are
  the exceptions of the host that the modelled statements can raise; the other four are
  the error taxonomy of the specification.
\<close>

datatype error =
    DeviceAccessError
  | ChannelError
  | MalformedAudioError
  | AlreadyActiveError
  | TypeError
  | InvalidStateError
  | InvalidCharacterError

text \<open>A value thrown to a \<^verbatim>\<open>catch\<close>: an \<^verbatim>\<open>Error\<close> object with its message, or anything else.\<close>

datatype js_error = ErrorObject string | OtherThrown

text \<open>The outcome of an awaited promise.\<close>

datatype 'a outcome = Resolved 'a | Rejected js_error

section \<open>Strings\<close>

text \<open>\<^verbatim>\<open>String.prototype.toLowerCase\<close> on the 8-bit range: the 26 capital letters and the
  capital letters U+00C0 to U+00DE (without the sign U+00D7) are mapped to the letter 32
  places further, every other character is kept.\<close>

definition capital_letters :: string where
  "capital_letters =
     ''ABCDEFGHIJKLMNOPQRSTUVWXYZ''
     @ [CHR 0xC0, CHR 0xC1, CHR 0xC2, CHR 0xC3, CHR 0xC4, CHR 0xC5, CHR 0xC6, CHR 0xC7,
        CHR 0xC8, CHR 0xC9, CHR 0xCA, CHR 0xCB, CHR 0xCC, CHR 0xCD, CHR 0xCE, CHR 0xCF,
        CHR 0xD0, CHR 0xD1, CHR 0xD2, CHR 0xD3, CHR 0xD4, CHR 0xD5, CHR 0xD6,
        CHR 0xD8, CHR 0xD9, CHR 0xDA, CHR 0xDB, CHR 0xDC, CHR 0xDD, CHR 0xDE]"

definition small_letters :: string where
  "small_letters =
     ''abcdefghijklmnopqrstuvwxyz''
     @ [CHR 0xE0, CHR 0xE1, CHR 0xE2, CHR 0xE3, CHR 0xE4, CHR 0xE5, CHR 0xE6, CHR 0xE7,
        CHR 0xE8, CHR 0xE9, CHR 0xEA, CHR 0xEB, CHR 0xEC, CHR 0xED, CHR 0xEE, CHR 0xEF,
        CHR 0xF0, CHR 0xF1, CHR 0xF2, CHR 0xF3, CHR 0xF4, CHR 0xF5, CHR 0xF6,
        CHR 0xF8, CHR 0xF9, CHR 0xFA, CHR 0xFB, CHR 0xFC, CHR 0xFD, CHR 0xFE]"

definition toLowerChar :: "char \<Rightarrow> char" where
  "toLowerChar c =
     (case map_of (zip capital_letters small_letters) c of
        None \<Rightarrow> c
      | Some l \<Rightarrow> l)"

definition toLowerCase :: "string \<Rightarrow> string" where
  "toLowerCase s = map toLowerChar s"

text \<open>\<^verbatim>\<open>String.prototype.includes\<close>: the keyword occurs at some position of the string. The
  empty keyword occurs in every string.\<close>

fun startsWith :: "string \<Rightarrow> string \<Rightarrow> bool" where
  "startsWith s [] = True"
| "startsWith [] (k # ks) = False"
| "startsWith (c # cs) (k # ks) = (c = k \<and> startsWith cs ks)"

fun includes_str :: "string \<Rightarrow> string \<Rightarrow> bool" where
  "includes_str [] k = (k = [])"
| "includes_str (c # cs) k = (startsWith (c # cs) k \<or> includes_str cs k)"

text \<open>\<^verbatim>\<open>String.prototype.trim\<close> removes white space and line terminators from both ends; in
  the 8-bit range these are the characters U+0009 to U+000D, the space U+0020 and the
  no-break space U+00A0 (U+0085 is neither).\<close>

definition isWhiteSpace :: "char \<Rightarrow> bool" where
  "isWhiteSpace c =
     (c \<in> set [CHR 0x09, CHR 0x0A, CHR 0x0B, CHR 0x0C, CHR 0x0D, CHR 0x20, CHR 0xA0])"

definition trim :: "string \<Rightarrow> string" where
  "trim s = rev (dropWhile isWhiteSpace (rev (dropWhile isWhiteSpace s)))"

text \<open>\<^verbatim>\<open>Number.prototype.toString\<close> on a non-negative integer such as \<^verbatim>\<open>Date.now()\<close>: its
  decimal digits, most significant first.\<close>

definition digit :: "nat \<Rightarrow> char" where
  "digit d = ''0123456789'' ! d"

function Number_toString :: "nat \<Rightarrow> string" where
  "Number_toString n =
     (if n < 10 then [digit n] else Number_toString (n div 10) @ [digit (n mod 10)])"
  by pat_completeness auto
termination
  by (relation "measure (\<lambda>n. n)") auto

declare Number_toString.simps [simp del]

section \<open>Keyword routing of text messages\<close>

text \<open>\<^verbatim>\<open>hasGroundingKeywords\<close> and the two keyword tables (\<^verbatim>\<open>src/App.tsx\<close>, lines 10 to 16).\<close>

definition hasGroundingKeywords :: "string \<Rightarrow> string list \<Rightarrow> bool" where
  "hasGroundingKeywords messageText keywords =
     (let lowerText = toLowerCase messageText
      in list_ex (\<lambda>keyword. includes_str lowerText keyword) keywords)"

definition SEARCH_KEYWORDS :: "string list" where
  "SEARCH_KEYWORDS = [''who'', ''what is'', ''when'', ''latest'', ''news'', ''search for'']"

definition MAPS_KEYWORDS :: "string list" where
  "MAPS_KEYWORDS =
     [''where'', ''nearby'', ''directions'', ''restaurants'', ''locations'', ''find'']"

text \<open>The three branches of the \<^verbatim>\<open>if\<close> / \<^verbatim>\<open>else if\<close> / \<^verbatim>\<open>else\<close> of \<^verbatim>\<open>sendMessage\<close>
  (lines 65, 88 and 102), in the order of the source.\<close>

datatype route = MapsGrounding | SearchGrounding | StandardChat

definition route_of :: "string \<Rightarrow> route" where
  "route_of messageText =
     (if hasGroundingKeywords messageText MAPS_KEYWORDS then MapsGrounding
      else if hasGroundingKeywords messageText SEARCH_KEYWORDS then SearchGrounding
      else StandardChat)"

section \<open>Application state\<close>

text \<open>
  The state of the \<^verbatim>\<open>App\<close> component: the four \<^verbatim>\<open>useState\<close> cells (five in
  \<^verbatim>\<open>part_000\<close>, which adds \<^verbatim>\<open>isApiKeyReady\<close>), the \<^verbatim>\<open>useRef\<close> cells, and the host objects
  the refs point to. A ref holds \<^verbatim>\<open>null\<close> (\<open>None\<close>) or the handle of a host object; the
  handle is the index of the object in the list of all objects of its kind created so
  far, so that an object outlives the ref that pointed to it:
  \<^item> \<open>sessions\<close>: live sessions, \<open>True\<close> while open;
  \<^item> \<open>mediaStreams\<close>: microphone streams, \<open>True\<close> while their tracks are live;
  \<^item> \<open>scriptProcessors\<close>: processing nodes, \<open>True\<close> while connected;
  \<^item> \<open>audioContexts\<close>: audio contexts with their \<^verbatim>\<open>state\<close>.
  An updater that \<^verbatim>\<open>sendMessage\<close>, \<^verbatim>\<open>handleApiError\<close>, \<^verbatim>\<open>startListening\<close> or \<^verbatim>\<open>onerror\<close> passes
  to \<^verbatim>\<open>setMessages\<close> reads no variable that is assigned after the call (its reading of
  \<^verbatim>\<open>Date.now()\<close> is an argument of the model), and is applied at the call. The updaters of
  the message handler of the live session read variables that the handler assigns
  afterwards; they are queued and run at the next render (see below).
\<close>

datatype AudioContextState = suspended | running | closed

record app_state =
  messages :: "Message list"
  input :: string
  isListening :: bool
  isLoading :: bool
  isApiKeyReady :: bool
  chatRef :: "unit option"
  sessionPromiseRef :: "nat option"
  mediaStreamRef :: "nat option"
  audioContextRef :: "nat option"
  scriptProcessorRef :: "nat option"
  sessions :: "bool list"
  mediaStreams :: "bool list"
  scriptProcessors :: "bool list"
  audioContexts :: "AudioContextState list"

definition initial_messages :: "Message list" where
  "initial_messages =
     [\<lparr>id_msg = Some ''1'', role = AI,
       text_msg = ''Hello! How can I help you today? You can ask me questions, or press the microphone to talk.'',
       sources = None, isLoading_msg = None\<rparr>]"

definition initial_state :: app_state where
  "initial_state =
     \<lparr>messages = initial_messages, input = [], isListening = False, isLoading = False,
      isApiKeyReady = False, chatRef = None, sessionPromiseRef = None,
      mediaStreamRef = None, audioContextRef = None, scriptProcessorRef = None,
      sessions = [], mediaStreams = [], scriptProcessors = [], audioContexts = []\<rparr>"

section \<open>Sending a text message\<close>

text \<open>
  The response of the remote call, as far as \<^verbatim>\<open>sendMessage\<close> reads it: \<^verbatim>\<open>response.text\<close>
  and the optional chain
  \<^verbatim>\<open>response.candidates?.[0]?.groundingMetadata?.groundingChunks\<close>, whose chunks have an
  optional \<^verbatim>\<open>maps\<close> and an optional \<^verbatim>\<open>web\<close> part with optional \<^verbatim>\<open>title\<close> and \<^verbatim>\<open>uri\<close>.
\<close>

record GroundingChunkPart =
  title_part :: "string option"
  uri_part :: "string option"

record GroundingChunk =
  maps_chunk :: "GroundingChunkPart option"
  web_chunk :: "GroundingChunkPart option"

record GenerateContentResponse =
  text_resp :: string
  groundingChunks :: "GroundingChunk list option"

text \<open>What the environment supplies to one call of \<^verbatim>\<open>sendMessage\<close>: the two readings of
  \<^verbatim>\<open>Date.now()\<close>, whether \<^verbatim>\<open>new GoogleGenAI\<close> (line 61) returns or throws, the outcome of
  \<^verbatim>\<open>getCurrentPosition\<close> and the outcome of the remote call of the branch taken.\<close>

record send_env =
  now_user :: nat
  now_ai :: nat
  client_send :: "unit outcome"
  position :: "unit outcome"
  generated :: "GenerateContentResponse outcome"

text \<open>\<^verbatim>\<open>x || d\<close> on an optional string: the default replaces \<^verbatim>\<open>undefined\<close> and the empty
  string.\<close>

definition orDefault :: "string option \<Rightarrow> string \<Rightarrow> string" where
  "orDefault v d = (case v of None \<Rightarrow> d | Some t \<Rightarrow> if t = [] then d else t)"

text \<open>\<^verbatim>\<open>chunks?.map(chunk => ({title, uri, type})).filter(s => s.uri) || []\<close> for one part
  selector: a chunk whose uri is missing or empty is dropped.\<close>

definition toSources ::
  "(GroundingChunk \<Rightarrow> GroundingChunkPart option) \<Rightarrow> string \<Rightarrow> SourceType \<Rightarrow>
   GroundingChunk list option \<Rightarrow> GroundingSource list" where
  "toSources part dflt ty chunks =
     (case chunks of
        None \<Rightarrow> []
      | Some cs \<Rightarrow>
          List.map_filter
            (\<lambda>chunk.
               case (case part chunk of None \<Rightarrow> None | Some p \<Rightarrow> uri_part p) of
                 None \<Rightarrow> None
               | Some u \<Rightarrow>
                   if u = [] then None
                   else Some \<lparr>title = orDefault (case part chunk of None \<Rightarrow> None
                                                   | Some p \<Rightarrow> title_part p) dflt,
                              uri = u, type_src = ty\<rparr>)
            cs)"

text \<open>\<^verbatim>\<open>initializeChat\<close> (lines 41 to 46).\<close>

definition initializeChat :: "app_state \<Rightarrow> app_state" where
  "initializeChat s = (if chatRef s = None then s\<lparr>chatRef := Some ()\<rparr> else s)"

text \<open>The body of the \<^verbatim>\<open>try\<close> of \<^verbatim>\<open>sendMessage\<close> (lines 61 to 109): the state, with the
  chat created on the third branch, and either the thrown value or \<^verbatim>\<open>responseText\<close> and
  \<^verbatim>\<open>sources\<close>.\<close>

definition sendMessage_try ::
  "send_env \<Rightarrow> string \<Rightarrow> app_state \<Rightarrow> app_state \<times> (js_error + string \<times> GroundingSource list)" where
  "sendMessage_try env messageText s =
     (case client_send env of
        Rejected e \<Rightarrow> (s, Inl e)
      | Resolved _ \<Rightarrow>
          (case route_of messageText of
             MapsGrounding \<Rightarrow>
               (case position env of
                  Rejected e \<Rightarrow> (s, Inl e)
                | Resolved _ \<Rightarrow>
                    (case generated env of
                       Rejected e \<Rightarrow> (s, Inl e)
                     | Resolved response \<Rightarrow>
                         (s, Inr (text_resp response,
                                  toSources maps_chunk ''Map Result'' MapsSource
                                    (groundingChunks response)))))
           | SearchGrounding \<Rightarrow>
               (case generated env of
                  Rejected e \<Rightarrow> (s, Inl e)
                | Resolved response \<Rightarrow>
                    (s, Inr (text_resp response,
                             toSources web_chunk ''Web Search Result'' SearchSource
                               (groundingChunks response))))
           | StandardChat \<Rightarrow>
               (let s' = initializeChat s
                in case chatRef s' of
                     None \<Rightarrow> (s', Inr ([], []))
                   | Some _ \<Rightarrow>
                       (case generated env of
                          Rejected e \<Rightarrow> (s', Inl e)
                        | Resolved response \<Rightarrow> (s', Inr (text_resp response, []))))))"

text \<open>\<^verbatim>\<open>error instanceof Error ? error.message : "An unknown error occurred."\<close>\<close>

definition errorMessage_of :: "js_error \<Rightarrow> string" where
  "errorMessage_of e =
     (case e of ErrorObject m \<Rightarrow> m | OtherThrown \<Rightarrow> ''An unknown error occurred.'')"

text \<open>\<^verbatim>\<open>handleApiError\<close> of \<^verbatim>\<open>part_000\<close> (lines 82 to 106). The first argument is the reading
  of \<^verbatim>\<open>Date.now()\<close>; \<^verbatim>\<open>if (aiMessageId)\<close> is false for \<^verbatim>\<open>undefined\<close> and for the empty string.\<close>

definition handleApiError :: "nat \<Rightarrow> js_error \<Rightarrow> string option \<Rightarrow> app_state \<Rightarrow> app_state" where
  "handleApiError now e aiMessageId s =
     (let errorMessage = errorMessage_of e;
          given = (case aiMessageId of None \<Rightarrow> False | Some a \<Rightarrow> a \<noteq> [])
      in if includes_str errorMessage ''API Key''
            \<or> includes_str errorMessage ''Requested entity was not found''
         then
           (let s1 = s\<lparr>isApiKeyReady := False\<rparr>;
                systemMessage =
                  \<lparr>id_msg = Some (Number_toString now), role = SYSTEM,
                   text_msg = ''Your API key is invalid or missing. Please select a valid key to continue.'',
                   sources = None, isLoading_msg = None\<rparr>
            in if given
               then s1\<lparr>messages :=
                         filter (\<lambda>msg. id_msg msg \<noteq> aiMessageId) (messages s1)
                         @ [systemMessage]\<rparr>
               else s1\<lparr>messages := messages s1 @ [systemMessage]\<rparr>)
         else
           (let displayError = ''Sorry, I ran into an error: '' @ errorMessage
            in if given
               then s\<lparr>messages :=
                        map (\<lambda>msg. if id_msg msg = aiMessageId
                                   then msg\<lparr>text_msg := displayError, isLoading_msg := Some False\<rparr>
                                   else msg)
                          (messages s)\<rparr>
               else s\<lparr>messages := messages s
                        @ [\<lparr>id_msg = Some (Number_toString now), role = SYSTEM,
                             text_msg = displayError, sources = None,
                             isLoading_msg = None\<rparr>]\<rparr>))"

text \<open>The statements of \<^verbatim>\<open>sendMessage\<close> from \<^verbatim>\<open>setIsLoading(true)\<close> to the \<^verbatim>\<open>try\<close> (lines 51
  to 58): the user's message and the placeholder of the answer are appended.\<close>

definition sendMessage_begin :: "send_env \<Rightarrow> string \<Rightarrow> app_state \<Rightarrow> app_state" where
  "sendMessage_begin env messageText s =
     (let s1 = s\<lparr>isLoading := True\<rparr>;
          userMessage = \<lparr>id_msg = Some (Number_toString (now_user env)), role = USER,
                         text_msg = messageText, sources = None, isLoading_msg = None\<rparr>;
          s2 = s1\<lparr>messages := messages s1 @ [userMessage]\<rparr>;
          s3 = s2\<lparr>input := []\<rparr>;
          aiMessagePlaceholder = \<lparr>id_msg = Some (Number_toString (now_ai env + 1)),
                                  role = AI,
                                  text_msg = [], sources = None, isLoading_msg = Some True\<rparr>
      in s3\<lparr>messages := messages s3 @ [aiMessagePlaceholder]\<rparr>)"

text \<open>The update of the placeholder after the \<^verbatim>\<open>try\<close> (line 111).\<close>

definition setResponse :: "string \<Rightarrow> string \<Rightarrow> GroundingSource list \<Rightarrow> app_state \<Rightarrow> app_state" where
  "setResponse aiMessageId responseText srcs s =
     s\<lparr>messages :=
         map (\<lambda>msg. if id_msg msg = Some aiMessageId
                    then msg\<lparr>text_msg := responseText, sources := Some srcs,
                             isLoading_msg := Some False\<rparr>
                    else msg)
           (messages s)\<rparr>"

text \<open>\<^verbatim>\<open>sendMessage\<close> of \<^verbatim>\<open>src/App.tsx\<close> (lines 48 to 119). Its \<^verbatim>\<open>catch\<close> writes the error into
  the placeholder; the \<^verbatim>\<open>finally\<close> clears the loading flag.\<close>

definition sendMessage :: "send_env \<Rightarrow> string \<Rightarrow> app_state \<Rightarrow> app_state" where
  "sendMessage env messageText s =
     (if trim messageText = [] \<or> isLoading s then s
      else
        (let aiMessageId = Number_toString (now_ai env + 1);
             s4 = sendMessage_begin env messageText s;
             s5 = (case sendMessage_try env messageText s4 of
                     (s', Inr (responseText, srcs)) \<Rightarrow>
                       setResponse aiMessageId responseText srcs s'
                   | (s', Inl e) \<Rightarrow>
                       s'\<lparr>messages :=
                            map (\<lambda>msg. if id_msg msg = Some aiMessageId
                                       then msg\<lparr>text_msg := ''Sorry, I ran into an error: ''
                                                  @ errorMessage_of e,
                                                isLoading_msg := Some False\<rparr>
                                       else msg)
                              (messages s')\<rparr>)
         in s5\<lparr>isLoading := False\<rparr>))"

text \<open>\<^verbatim>\<open>sendMessage\<close> of \<^verbatim>\<open>part_000\<close> (lines 108 to 179): the same, but the \<^verbatim>\<open>catch\<close> calls
  \<^verbatim>\<open>handleApiError(error, aiMessageId)\<close>. The third argument is the reading of \<^verbatim>\<open>Date.now()\<close>
  in \<^verbatim>\<open>handleApiError\<close>.\<close>

definition sendMessage_part000 :: "send_env \<Rightarrow> nat \<Rightarrow> string \<Rightarrow> app_state \<Rightarrow> app_state" where
  "sendMessage_part000 env now_err messageText s =
     (if trim messageText = [] \<or> isLoading s then s
      else
        (let aiMessageId = Number_toString (now_ai env + 1);
             s4 = sendMessage_begin env messageText s;
             s5 = (case sendMessage_try env messageText s4 of
                     (s', Inr (responseText, srcs)) \<Rightarrow>
                       setResponse aiMessageId responseText srcs s'
                   | (s', Inl e) \<Rightarrow> handleApiError now_err e (Some aiMessageId) s')
         in s5\<lparr>isLoading := False\<rparr>))"

section \<open>Transport-safe codec\<close>

text \<open>
  Modelled from the spec: \<^verbatim>\<open>encode\<close> of \<^verbatim>\<open>./utils/audio\<close>, imported by \<^verbatim>\<open>src/App.tsx\<close>
  (line 7) and not under \<^verbatim>\<open>src/\<close>. The specification gives it standard base64
  semantics: every 3 input bytes become 4 output characters, the last group padded with
  \<open>=\<close>. A byte is an \<^typ>\<open>8 word\<close>; the four 6-bit groups of three bytes are taken
  with \<open>div\<close> and \<open>mod\<close> on their values.
\<close>

definition base64_alphabet :: string where
  "base64_alphabet = ''ABCDEFGHIJKLMNOPQRSTUVWXYZabcdefghijklmnopqrstuvwxyz0123456789+/''"

definition base64_char :: "nat \<Rightarrow> char" where
  "base64_char n = base64_alphabet ! n"

fun encode :: "8 word list \<Rightarrow> string" where
  "encode [] = []"
| "encode [a] =
     [base64_char (unat a div 4), base64_char (unat a mod 4 * 16), CHR ''='', CHR ''='']"
| "encode [a, b] =
     [base64_char (unat a div 4), base64_char (unat a mod 4 * 16 + unat b div 16),
      base64_char (unat b mod 16 * 4), CHR ''='']"
| "encode (a # b # c # rest) =
     [base64_char (unat a div 4), base64_char (unat a mod 4 * 16 + unat b div 16),
      base64_char (unat b mod 16 * 4 + unat c div 64), base64_char (unat c mod 64)]
     @ encode rest"

text \<open>
  Modelled from the spec: \<^verbatim>\<open>decode\<close> of \<^verbatim>\<open>./utils/audio\<close>, not under \<^verbatim>\<open>src/\<close>; the
  specification calls it the inverse of \<^verbatim>\<open>encode\<close>. It reads groups of four characters,
  accepts padding in the last group only, and fails with \<open>InvalidCharacterError\<close> on a
  character outside the alphabet or on a length that is not a multiple of four.
\<close>

fun index_of :: "char \<Rightarrow> string \<Rightarrow> nat option" where
  "index_of c [] = None"
| "index_of c (x # xs) = (if c = x then Some 0 else map_option Suc (index_of c xs))"

definition base64_value :: "char \<Rightarrow> nat option" where
  "base64_value c = index_of c base64_alphabet"

fun decode :: "string \<Rightarrow> error + 8 word list" where
  "decode [] = Inr []"
| "decode (w # x # y # z # rest) =
     (case (base64_value w, base64_value x) of
        (Some s0, Some s1) \<Rightarrow>
          (if y = CHR ''='' \<and> z = CHR ''='' \<and> rest = []
           then Inr [of_nat (s0 * 4 + s1 div 16)]
           else
             (case base64_value y of
                None \<Rightarrow> Inl InvalidCharacterError
              | Some s2 \<Rightarrow>
                  (if z = CHR ''='' \<and> rest = []
                   then Inr [of_nat (s0 * 4 + s1 div 16), of_nat (s1 mod 16 * 16 + s2 div 4)]
                   else
                     (case base64_value z of
                        None \<Rightarrow> Inl InvalidCharacterError
                      | Some s3 \<Rightarrow>
                          (case decode rest of
                             Inl e \<Rightarrow> Inl e
                           | Inr bs \<Rightarrow>
                               Inr (of_nat (s0 * 4 + s1 div 16)
                                    # of_nat (s1 mod 16 * 16 + s2 div 4)
                                    # of_nat (s2 mod 4 * 64 + s3) # bs))))))
      | _ \<Rightarrow> Inl InvalidCharacterError)"
| "decode _ = Inl InvalidCharacterError"

text \<open>
  Modelled from the spec: \<^verbatim>\<open>decodeAudioData\<close> of \<^verbatim>\<open>./utils/audio\<close>, not under \<^verbatim>\<open>src/\<close>. By
  the specification it reads the bytes as 16-bit PCM, produces a buffer with sample count
  = byte length / 2 / channel count and duration = sample count / sample rate, and fails
  with \<open>MalformedAudioError\<close> when the byte length is not a whole multiple of
  \<open>2 * channelCount\<close>.
\<close>

record AudioBuffer =
  numberOfChannels :: nat
  frameCount :: nat
  sampleRate :: nat

definition duration :: "AudioBuffer \<Rightarrow> real" where
  "duration b = real (frameCount b) / real (sampleRate b)"

definition decodeAudioData :: "8 word list \<Rightarrow> nat \<Rightarrow> nat \<Rightarrow> error + AudioBuffer" where
  "decodeAudioData bytes rate numChannels =
     (if length bytes mod (2 * numChannels) \<noteq> 0 then Inl MalformedAudioError
      else Inr \<lparr>numberOfChannels = numChannels,
                frameCount = length bytes div 2 div numChannels,
                sampleRate = rate\<rparr>)"

section \<open>PCM framer\<close>

text \<open>
  The capture callback \<^verbatim>\<open>onaudioprocess\<close> (\<^verbatim>\<open>src/App.tsx\<close>, lines 172 to 186). A sample of
  the \<^verbatim>\<open>Float32Array\<close> is a finite real number; its product with 32768, a power of two, is
  exact. The store \<^verbatim>\<open>int16[i] = x\<close> into an \<^verbatim>\<open>Int16Array\<close> converts with ToInt16: the
  fraction is discarded (the integer of the same sign whose magnitude is the floor of
  the magnitude), and the integer is taken modulo \<open>2 ^ 16\<close> into the signed range, which
  is what \<open>word_of_int\<close> into a \<^typ>\<open>16 word\<close> read with \<open>sint\<close> does.
\<close>

definition truncate_zero :: "real \<Rightarrow> int" where
  "truncate_zero x = (if x < 0 then - \<lfloor>\<bar>x\<bar>\<rfloor> else \<lfloor>\<bar>x\<bar>\<rfloor>)"

definition ToInt16 :: "real \<Rightarrow> 16 word" where
  "ToInt16 x = word_of_int (truncate_zero x)"

text \<open>The \<^verbatim>\<open>for\<close> loop of lines 176 to 178, on the array \<^verbatim>\<open>new Int16Array(l)\<close> of zeros.\<close>

function fill_int16 :: "nat \<Rightarrow> nat \<Rightarrow> real list \<Rightarrow> 16 word list \<Rightarrow> 16 word list" where
  "fill_int16 i l inputData int16 =
     (if i < l
      then fill_int16 (i + 1) l inputData (int16[i := ToInt16 (inputData ! i * 32768)])
      else int16)"
  by pat_completeness auto
termination
  by (relation "measure (\<lambda>(i, l, inputData, int16). l - i)") auto

declare fill_int16.simps [simp del]

definition pcm_frame :: "real list \<Rightarrow> 16 word list" where
  "pcm_frame inputData =
     (let l = length inputData;
          int16 = replicate l 0
      in fill_int16 0 l inputData int16)"

text \<open>The frame as the specification words it: each element is
  \<open>round (sample * 32768)\<close>, truncated to 16 bits.\<close>

definition pcm_frame_spec :: "real list \<Rightarrow> 16 word list" where
  "pcm_frame_spec inputData = map (\<lambda>sample. word_of_int (round (sample * 32768))) inputData"

text \<open>\<^verbatim>\<open>new Uint8Array(int16.buffer)\<close>: the two bytes of each element, low byte first.\<close>

definition int16_bytes :: "16 word list \<Rightarrow> 8 word list" where
  "int16_bytes int16 = concat (map (\<lambda>w. [ucast w, ucast (drop_bit 8 w)]) int16)"

record Blob =
  data_blob :: string
  mimeType :: string

text \<open>The callback: the blob, and the session it is sent to when \<^verbatim>\<open>sessionPromiseRef.current\<close>
  is set.\<close>

definition onaudioprocess :: "real list \<Rightarrow> app_state \<Rightarrow> (nat \<times> Blob) option" where
  "onaudioprocess inputData s =
     (let int16 = pcm_frame inputData;
          pcmBlob = \<lparr>data_blob = encode (int16_bytes int16),
                     mimeType = ''audio/pcm;rate=16000''\<rparr>
      in map_option (\<lambda>session. (session, pcmBlob)) (sessionPromiseRef s))"

section \<open>Live session: the message handler\<close>

text \<open>
  The message of the remote peer as \<^verbatim>\<open>onmessage\<close> reads it (\<^verbatim>\<open>src/App.tsx\<close>, lines 190 to
  233): the optional transcriptions with their optional text, the turn-complete flag and
  the optional model turn, whose parts may carry inline data.
\<close>

record InlineData =
  data_inline :: "string option"

record Part =
  inlineData :: "InlineData option"

record ModelTurn =
  parts :: "Part list option"

record LiveServerMessage =
  inputTranscription :: "string option option"
  outputTranscription :: "string option option"
  turnComplete :: bool
  modelTurn :: "ModelTurn option"

text \<open>
  The five updaters that the handler passes to \<^verbatim>\<open>setMessages\<close> (lines 196, 198, 207, 209
  and 215). Each is a function of the message list that React runs at the next render,
  after the handler has gone on; it reads the variables \<^verbatim>\<open>userInputId\<close>,
  \<^verbatim>\<open>currentInputTranscription\<close>, \<^verbatim>\<open>aiResponseId\<close> and \<^verbatim>\<open>currentOutputTranscription\<close> of the
  closure as they are when it runs. Only the updater of line 215 carries a value fixed
  at the call, the constant \<^verbatim>\<open>fullInput\<close>.
\<close>

datatype updater =
    AppendUserRecord
  | UpdateUserRecord
  | AppendAiRecord
  | UpdateAiRecord
  | SetUserText string

text \<open>The variables of the closure of one \<^verbatim>\<open>startListening\<close> call (lines 153 to 162), the
  handle of its output audio context, the updaters of the closure that are queued for the
  next render, oldest first, and the calls \<^verbatim>\<open>source.start(nextStartTime)\<close> made so far,
  each with the buffer it plays and the clock read when it was enqueued. Times are real
  numbers.\<close>

record PlaybackQueueEntry =
  startTime :: real
  buffer :: AudioBuffer
  clockAtEnqueue :: real

record live_state =
  currentInputTranscription :: string
  currentOutputTranscription :: string
  nextStartTime :: real
  userInputId :: "string option"
  aiResponseId :: "string option"
  outputAudioContext :: nat
  queued :: "updater list"
  started :: "PlaybackQueueEntry list"

text \<open>What the environment supplies to one call of the handler: \<^verbatim>\<open>Date.now()\<close> at lines 195
  and 206, and \<^verbatim>\<open>outputAudioContext.currentTime\<close> at line 225.\<close>

record msg_env =
  now_input :: nat
  now_output :: nat
  currentTime :: real

text \<open>\<^verbatim>\<open>s += text\<close> with an optional text: \<^verbatim>\<open>undefined\<close> is appended as the word.\<close>

definition text_or_undefined :: "string option \<Rightarrow> string" where
  "text_or_undefined t = (case t of None \<Rightarrow> ''undefined'' | Some txt \<Rightarrow> txt)"

text \<open>Truthiness of a \<^verbatim>\<open>string | null\<close>.\<close>

definition truthy :: "string option \<Rightarrow> bool" where
  "truthy v = (case v of None \<Rightarrow> False | Some x \<Rightarrow> x \<noteq> [])"

text \<open>\<^verbatim>\<open>prev.map(msg => msg.id === ident ? {...msg, text: t} : msg)\<close>\<close>

definition setText :: "string option \<Rightarrow> string \<Rightarrow> Message list \<Rightarrow> Message list" where
  "setText ident t msgs =
     map (\<lambda>msg. if id_msg msg = ident then msg\<lparr>text_msg := t\<rparr> else msg) msgs"

text \<open>An updater run on the message list \<open>prev\<close>, with the closure as it is at that
  moment.\<close>

fun run_updater :: "live_state \<Rightarrow> updater \<Rightarrow> Message list \<Rightarrow> Message list" where
  "run_updater L AppendUserRecord prev =
     prev @ [\<lparr>id_msg = userInputId L, role = USER,
               text_msg = ''*'' @ currentInputTranscription L @ ''*'',
               sources = None, isLoading_msg = None\<rparr>]"
| "run_updater L UpdateUserRecord prev =
     setText (userInputId L) (''*'' @ currentInputTranscription L @ ''*'') prev"
| "run_updater L AppendAiRecord prev =
     prev @ [\<lparr>id_msg = aiResponseId L, role = AI,
               text_msg = currentOutputTranscription L,
               sources = None, isLoading_msg = None\<rparr>]"
| "run_updater L UpdateAiRecord prev =
     setText (aiResponseId L) (currentOutputTranscription L) prev"
| "run_updater L (SetUserText fullInput) prev =
     setText (userInputId L) fullInput prev"

text \<open>Lines 191 to 200. The handler assigns the variables and queues the updater; the
  message list is not touched before the render.\<close>

definition on_inputTranscription ::
  "msg_env \<Rightarrow> string option \<Rightarrow> live_state \<times> app_state \<Rightarrow> live_state \<times> app_state" where
  "on_inputTranscription env t st =
     (case st of (L, s) \<Rightarrow>
        (let cur = currentInputTranscription L @ text_or_undefined t;
             L1 = L\<lparr>currentInputTranscription := cur\<rparr>
         in if \<not> truthy (userInputId L1)
            then
              (let uid = Number_toString (now_input env)
               in (L1\<lparr>userInputId := Some uid, queued := queued L1 @ [AppendUserRecord]\<rparr>, s))
            else (L1\<lparr>queued := queued L1 @ [UpdateUserRecord]\<rparr>, s)))"

text \<open>Lines 202 to 211.\<close>

definition on_outputTranscription ::
  "msg_env \<Rightarrow> string option \<Rightarrow> live_state \<times> app_state \<Rightarrow> live_state \<times> app_state" where
  "on_outputTranscription env t st =
     (case st of (L, s) \<Rightarrow>
        (let cur = currentOutputTranscription L @ text_or_undefined t;
             L1 = L\<lparr>currentOutputTranscription := cur\<rparr>
         in if \<not> truthy (aiResponseId L1)
            then
              (let aid = Number_toString (now_output env + 1)
               in (L1\<lparr>aiResponseId := Some aid, queued := queued L1 @ [AppendAiRecord]\<rparr>, s))
            else (L1\<lparr>queued := queued L1 @ [UpdateAiRecord]\<rparr>, s)))"

text \<open>Lines 213 to 221: \<^verbatim>\<open>fullInput\<close> is copied into the updater, which is queued; then the
  buffers and both handles are reset.\<close>

definition on_turnComplete :: "live_state \<times> app_state \<Rightarrow> live_state \<times> app_state" where
  "on_turnComplete st =
     (case st of (L, s) \<Rightarrow>
        (let fullInput = currentInputTranscription L;
             L1 = L\<lparr>queued := queued L @ [SetUserText fullInput]\<rparr>
         in (L1\<lparr>currentInputTranscription := [], currentOutputTranscription := [],
                userInputId := None, aiResponseId := None\<rparr>,
             s)))"

text \<open>Line 223, \<^verbatim>\<open>message.serverContent?.modelTurn?.parts[0]?.inlineData.data\<close>: a model turn
  without \<^verbatim>\<open>parts\<close> and a first part without \<^verbatim>\<open>inlineData\<close> raise \<open>TypeError\<close>.\<close>

definition base64Audio_of :: "LiveServerMessage \<Rightarrow> error + string option" where
  "base64Audio_of message =
     (case modelTurn message of
        None \<Rightarrow> Inr None
      | Some turn \<Rightarrow>
          (case parts turn of
             None \<Rightarrow> Inl TypeError
           | Some ps \<Rightarrow>
               (case ps of
                  [] \<Rightarrow> Inr None
                | p # _ \<Rightarrow>
                    (case inlineData p of
                       None \<Rightarrow> Inl TypeError
                     | Some d \<Rightarrow> Inr (data_inline d)))))"

text \<open>Lines 223 to 232, the playback scheduler, in the two halves that the \<^verbatim>\<open>await\<close> of line
  226 separates: the cursor is raised to the clock (line 225) before the chunk is decoded,
  and the buffer is started at the cursor, which then advances by its duration (lines 227
  to 231). The second argument of \<open>audio_resume\<close> is the clock that the first half read.\<close>

definition audio_arrive :: "real \<Rightarrow> live_state \<Rightarrow> live_state" where
  "audio_arrive clock L = L\<lparr>nextStartTime := max (nextStartTime L) clock\<rparr>"

definition audio_resume :: "AudioBuffer \<Rightarrow> real \<Rightarrow> live_state \<Rightarrow> live_state" where
  "audio_resume audioBuffer clock L =
     L\<lparr>started := started L
           @ [\<lparr>startTime = nextStartTime L, buffer = audioBuffer, clockAtEnqueue = clock\<rparr>],
       nextStartTime := nextStartTime L + duration audioBuffer\<rparr>"

text \<open>The two halves in one go, as they run when nothing else is scheduled between them; a
  chunk that fails to decode ends the handler after the first half.\<close>

definition on_audio :: "msg_env \<Rightarrow> LiveServerMessage \<Rightarrow> live_state \<Rightarrow> error option \<times> live_state" where
  "on_audio env message L =
     (case base64Audio_of message of
        Inl e \<Rightarrow> (Some e, L)
      | Inr base64Audio \<Rightarrow>
          if \<not> truthy base64Audio then (None, L)
          else
            (let L1 = audio_arrive (currentTime env) L
             in case decode (the base64Audio) of
                  Inl e \<Rightarrow> (Some e, L1)
                | Inr bytes \<Rightarrow>
                    (case decodeAudioData bytes 24000 1 of
                       Inl e \<Rightarrow> (Some e, L1)
                     | Inr audioBuffer \<Rightarrow>
                         (None, audio_resume audioBuffer (currentTime env) L1))))"

text \<open>
  The handlers of several chunks interleaved at the \<^verbatim>\<open>await\<close>: a chunk arrives and its
  handler runs the first half, the handler of a suspended chunk resumes with its decoded
  buffer, or the decoding of a suspended chunk fails. The suspended handlers are kept as
  the list of the clocks they read; \<open>Resume\<close> and \<open>Fail\<close> name one by its position, and
  a position beyond the list is no step at all.
\<close>

datatype audio_step = Arrive real | Resume nat AudioBuffer | Fail nat

fun remove_nth :: "nat \<Rightarrow> 'a list \<Rightarrow> 'a list" where
  "remove_nth i xs = take i xs @ drop (Suc i) xs"

fun audio_steps :: "audio_step list \<Rightarrow> real list \<times> live_state \<Rightarrow> real list \<times> live_state" where
  "audio_steps [] st = st"
| "audio_steps (Arrive clock # rest) (waiting, L) =
     audio_steps rest (waiting @ [clock], audio_arrive clock L)"
| "audio_steps (Resume i audioBuffer # rest) (waiting, L) =
     (if i < length waiting
      then audio_steps rest (remove_nth i waiting, audio_resume audioBuffer (waiting ! i) L)
      else audio_steps rest (waiting, L))"
| "audio_steps (Fail i # rest) (waiting, L) =
     (if i < length waiting
      then audio_steps rest (remove_nth i waiting, L)
      else audio_steps rest (waiting, L))"

text \<open>The handler: the four blocks in the order of the source. The error, if any, is the
  rejection of the handler's promise; the state reached before it stays.\<close>

definition onmessage ::
  "msg_env \<Rightarrow> LiveServerMessage \<Rightarrow> live_state \<times> app_state \<Rightarrow>
   error option \<times> live_state \<times> app_state" where
  "onmessage env message st =
     (let st1 = (case inputTranscription message of
                   None \<Rightarrow> st
                 | Some t \<Rightarrow> on_inputTranscription env t st);
          st2 = (case outputTranscription message of
                   None \<Rightarrow> st1
                 | Some t \<Rightarrow> on_outputTranscription env t st1);
          st3 = (if turnComplete message then on_turnComplete st2 else st2)
      in case on_audio env message (fst st3) of
           (err, L4) \<Rightarrow> (err, L4, snd st3))"

text \<open>A sequence of messages, handled in the order of arrival; a rejected handler does not
  end the session. No render takes place in between: the updaters stay queued.\<close>

fun onmessages ::
  "(msg_env \<times> LiveServerMessage) list \<Rightarrow> live_state \<times> app_state \<Rightarrow> live_state \<times> app_state" where
  "onmessages [] st = st"
| "onmessages ((env, message) # rest) st = onmessages rest (snd (onmessage env message st))"

text \<open>A render: React runs the queued updaters in the order of their calls, each on the
  result of the one before, and the queue is empty afterwards.\<close>

definition render :: "live_state \<times> app_state \<Rightarrow> live_state \<times> app_state" where
  "render st =
     (case st of (L, s) \<Rightarrow>
        (L\<lparr>queued := []\<rparr>,
         s\<lparr>messages := fold (run_updater L) (queued L) (messages s)\<rparr>))"

text \<open>A run of the session: messages arrive and React renders, in any order. A render
  comes after the synchronous part of the handlers before it, never inside one.\<close>

datatype session_event = Receive msg_env LiveServerMessage | Render

fun session_steps :: "session_event list \<Rightarrow> live_state \<times> app_state \<Rightarrow> live_state \<times> app_state" where
  "session_steps [] st = st"
| "session_steps (Receive env message # rest) st =
     session_steps rest (snd (onmessage env message st))"
| "session_steps (Render # rest) st = session_steps rest (render st)"

text \<open>The messages that carry one event of the specification's \<^verbatim>\<open>InboundEvent\<close> each: a delta
  of the input transcript, a delta of the output transcript, the end of a turn, and an
  audio chunk as the inline data of the first part of a model turn.\<close>

definition InputTranscriptDelta :: "string \<Rightarrow> LiveServerMessage" where
  "InputTranscriptDelta t =
     \<lparr>inputTranscription = Some (Some t), outputTranscription = None, turnComplete = False,
      modelTurn = None\<rparr>"

definition OutputTranscriptDelta :: "string \<Rightarrow> LiveServerMessage" where
  "OutputTranscriptDelta t =
     \<lparr>inputTranscription = None, outputTranscription = Some (Some t), turnComplete = False,
      modelTurn = None\<rparr>"

definition TurnComplete :: LiveServerMessage where
  "TurnComplete =
     \<lparr>inputTranscription = None, outputTranscription = None, turnComplete = True,
      modelTurn = None\<rparr>"

definition AudioChunk :: "string \<Rightarrow> LiveServerMessage" where
  "AudioChunk base64Audio =
     \<lparr>inputTranscription = None, outputTranscription = None, turnComplete = False,
      modelTurn = Some \<lparr>parts = Some [\<lparr>inlineData = Some \<lparr>data_inline = Some base64Audio\<rparr>\<rparr>]\<rparr>\<rparr>"

section \<open>Live session: start, stop and errors\<close>

text \<open>\<^verbatim>\<open>AudioContext.close()\<close>: the promise is rejected with \<open>InvalidStateError\<close> when the
  context is closed already.\<close>

definition AudioContext_close :: "nat \<Rightarrow> app_state \<Rightarrow> error option \<times> app_state" where
  "AudioContext_close h s =
     (if audioContexts s ! h = closed then (Some InvalidStateError, s)
      else (None, s\<lparr>audioContexts := (audioContexts s)[h := closed]\<rparr>))"

text \<open>\<^verbatim>\<open>stopListening\<close> (lines 121 to 139): the four guarded releases, then
  \<^verbatim>\<open>setIsListening(false)\<close>. The session is closed by a callback on its promise; the model
  closes it at once. The result carries the error of the call, if any.\<close>

definition stopListening :: "app_state \<Rightarrow> error option \<times> app_state" where
  "stopListening s =
     (let s1 = (case sessionPromiseRef s of
                  None \<Rightarrow> s
                | Some session \<Rightarrow>
                    s\<lparr>sessions := (sessions s)[session := False], sessionPromiseRef := None\<rparr>);
          s2 = (case mediaStreamRef s1 of
                  None \<Rightarrow> s1
                | Some stream \<Rightarrow>
                    s1\<lparr>mediaStreams := (mediaStreams s1)[stream := False],
                       mediaStreamRef := None\<rparr>);
          s3 = (case scriptProcessorRef s2 of
                  None \<Rightarrow> s2
                | Some node \<Rightarrow>
                    s2\<lparr>scriptProcessors := (scriptProcessors s2)[node := False],
                       scriptProcessorRef := None\<rparr>);
          r4 = (case audioContextRef s3 of
                  None \<Rightarrow> (None, s3)
                | Some ctx \<Rightarrow>
                    if audioContexts s3 ! ctx \<noteq> closed
                    then (case AudioContext_close ctx s3 of
                            (err, s') \<Rightarrow> (err, s'\<lparr>audioContextRef := None\<rparr>))
                    else (None, s3))
      in (fst r4, (snd r4)\<lparr>isListening := False\<rparr>))"

text \<open>What the environment supplies to \<^verbatim>\<open>startListening\<close>: the outcome of \<^verbatim>\<open>getUserMedia\<close>
  (line 149), whether the constructors that follow return or throw (\<^verbatim>\<open>new GoogleGenAI\<close> at
  line 152 throws without an API key, \<^verbatim>\<open>new AudioContext\<close> at line 157 throws when the host
  has no output context left to give), and \<^verbatim>\<open>Date.now()\<close> in the \<^verbatim>\<open>catch\<close>.\<close>

record start_env =
  getUserMedia :: "unit outcome"
  constructors :: "unit outcome"
  now_start :: nat

definition new_live_state :: "nat \<Rightarrow> live_state" where
  "new_live_state ctx =
     \<lparr>currentInputTranscription = [], currentOutputTranscription = [], nextStartTime = 0,
      userInputId = None, aiResponseId = None, outputAudioContext = ctx, queued = [],
      started = []\<rparr>"

text \<open>
  \<^verbatim>\<open>startListening\<close> (lines 142 to 255), up to the call of \<^verbatim>\<open>ai.live.connect\<close>: the result
  is the outcome of its promise, the new state and, when a session was started, the
  closure of its callbacks. While listening the call stops the session and returns. The
  \<^verbatim>\<open>catch\<close> (lines 250 to 254) makes every outcome a normal return. The objects created
  are the microphone stream, the output audio context and the session.
\<close>

definition startListening_catch :: "start_env \<Rightarrow> app_state \<Rightarrow> app_state" where
  "startListening_catch env s =
     s\<lparr>isListening := False,
       messages := messages s
         @ [\<lparr>id_msg = Some (Number_toString (now_start env)), role = SYSTEM,
             text_msg = ''Could not access microphone. Please check permissions.'',
             sources = None, isLoading_msg = None\<rparr>]\<rparr>"

definition startListening ::
  "start_env \<Rightarrow> app_state \<Rightarrow> error + (app_state \<times> live_state option)" where
  "startListening env s =
     (if isListening s then Inr (snd (stopListening s), None)
      else
        (case getUserMedia env of
           Rejected e \<Rightarrow> Inr (startListening_catch env s, None)
         | Resolved _ \<Rightarrow>
             (let stream = length (mediaStreams s);
                  s1 = s\<lparr>mediaStreams := mediaStreams s @ [True], mediaStreamRef := Some stream\<rparr>;
                  s2 = s1\<lparr>isListening := True\<rparr>
              in case constructors env of
                   Rejected e \<Rightarrow> Inr (startListening_catch env s2, None)
                 | Resolved _ \<Rightarrow>
                     (let ctx = length (audioContexts s2);
                          s3 = s2\<lparr>audioContexts := audioContexts s2 @ [running]\<rparr>;
                          session = length (sessions s3);
                          s4 = s3\<lparr>sessions := sessions s3 @ [True],
                                  sessionPromiseRef := Some session\<rparr>
                      in Inr (s4, Some (new_live_state ctx))))))"

text \<open>\<^verbatim>\<open>onopen\<close> (lines 167 to 189): the capture context and the processing node are created
  and stored in their refs. \<^verbatim>\<open>createMediaStreamSource(null)\<close> raises \<open>TypeError\<close>.\<close>

definition onopen :: "app_state \<Rightarrow> error option \<times> app_state" where
  "onopen s =
     (let ctx = length (audioContexts s);
          s1 = s\<lparr>audioContexts := audioContexts s @ [running], audioContextRef := Some ctx\<rparr>
      in case mediaStreamRef s1 of
           None \<Rightarrow> (Some TypeError, s1)
         | Some _ \<Rightarrow>
             (let node = length (scriptProcessors s1)
              in (None, s1\<lparr>scriptProcessors := scriptProcessors s1 @ [True],
                           scriptProcessorRef := Some node\<rparr>)))"

text \<open>\<^verbatim>\<open>onerror\<close> of \<^verbatim>\<open>src/App.tsx\<close> (lines 234 to 238); the arguments are \<^verbatim>\<open>Date.now()\<close> and
  \<^verbatim>\<open>e.message\<close>.\<close>

definition onerror :: "nat \<Rightarrow> string \<Rightarrow> app_state \<Rightarrow> error option \<times> app_state" where
  "onerror now e_message s =
     stopListening
       (s\<lparr>messages := messages s
            @ [\<lparr>id_msg = Some (Number_toString now), role = SYSTEM,
                text_msg = ''Connection error: '' @ e_message,
                sources = None, isLoading_msg = None\<rparr>]\<rparr>)"

text \<open>\<^verbatim>\<open>onerror\<close> of \<^verbatim>\<open>part_000\<close> (lines 295 to 298).\<close>

definition onerror_part000 :: "nat \<Rightarrow> string \<Rightarrow> app_state \<Rightarrow> error option \<times> app_state" where
  "onerror_part000 now e_message s =
     stopListening (handleApiError now (ErrorObject e_message) None s)"

text \<open>A session that has been started from the initial state, with the microphone granted,
  and whose channel has opened: the state of the application and the closure of the
  session's callbacks.\<close>

definition mic_granted :: start_env where
  "mic_granted =
     \<lparr>getUserMedia = Resolved (), constructors = Resolved (), now_start = 1700000000000\<rparr>"

definition active_state :: app_state where
  "active_state = snd (onopen (fst (projr (startListening mic_granted initial_state))))"

definition active_live :: live_state where
  "active_live = the (snd (projr (startListening mic_granted initial_state)))"

section \<open>Properties\<close>

subsection \<open>Routing and the send guard\<close>

lemma startsWith_iff: "startsWith s k \<longleftrightarrow> (\<exists>post. s = k @ post)"
  by (induction s k rule: startsWith.induct) auto

lemma includes_iff: "includes_str s k \<longleftrightarrow> (\<exists>pre post. s = pre @ k @ post)"
proof (induction s)
  case Nil
  then show ?case by simp
next
  case (Cons c cs)
  show ?case
  proof
    assume "includes_str (c # cs) k"
    then consider "startsWith (c # cs) k" | "includes_str cs k" by auto
    then show "\<exists>pre post. c # cs = pre @ k @ post"
    proof cases
      case 1
      then obtain post where "c # cs = k @ post" using startsWith_iff by blast
      then have "c # cs = [] @ k @ post" by simp
      then show ?thesis by blast
    next
      case 2
      then obtain pre post where "cs = pre @ k @ post" using Cons.IH by blast
      then have "c # cs = (c # pre) @ k @ post" by simp
      then show ?thesis by blast
    qed
  next
    assume "\<exists>pre post. c # cs = pre @ k @ post"
    then obtain pre post where eq: "c # cs = pre @ k @ post" by blast
    show "includes_str (c # cs) k"
    proof (cases pre)
      case Nil
      with eq have "startsWith (c # cs) k" using startsWith_iff by auto
      then show ?thesis by simp
    next
      case (Cons p ps)
      with eq have "cs = ps @ k @ post" by simp
      then have "includes_str cs k" using Cons.IH by blast
      then show ?thesis by simp
    qed
  qed
qed

lemma hasGroundingKeywords_iff:
  "hasGroundingKeywords t ks \<longleftrightarrow>
     (\<exists>k \<in> set ks. \<exists>pre post. toLowerCase t = pre @ k @ post)"
  by (simp add: hasGroundingKeywords_def list_ex_iff includes_iff)

lemma trim_empty_iff: "trim s = [] \<longleftrightarrow> (\<forall>c \<in> set s. isWhiteSpace c)"
proof
  assume "trim s = []"
  then have "dropWhile isWhiteSpace (rev (dropWhile isWhiteSpace s)) = []"
    by (simp add: trim_def)
  then have a: "\<forall>c \<in> set (dropWhile isWhiteSpace s). isWhiteSpace c"
    by (simp add: dropWhile_eq_Nil_conv)
  have "dropWhile isWhiteSpace s = []"
  proof (rule ccontr)
    assume "dropWhile isWhiteSpace s \<noteq> []"
    then have "\<not> isWhiteSpace (hd (dropWhile isWhiteSpace s))"
      by (rule hd_dropWhile)
    moreover have "hd (dropWhile isWhiteSpace s) \<in> set (dropWhile isWhiteSpace s)"
      using \<open>dropWhile isWhiteSpace s \<noteq> []\<close> by simp
    ultimately show False using a by blast
  qed
  then show "\<forall>c \<in> set s. isWhiteSpace c"
    by (simp add: dropWhile_eq_Nil_conv)
next
  assume "\<forall>c \<in> set s. isWhiteSpace c"
  then have "dropWhile isWhiteSpace s = []"
    by (simp add: dropWhile_eq_Nil_conv)
  then have "trim s = rev (dropWhile isWhiteSpace (rev []))"
    unfolding trim_def by (simp only:)
  then show "trim s = []"
    by simp
qed

lemma sendMessage_try_messages: "messages (fst (sendMessage_try env t s)) = messages s"
  by (simp add: sendMessage_try_def initializeChat_def
           split: route.splits outcome.splits option.splits)

lemma sendMessage_appends:
  assumes "trim t \<noteq> []" and "\<not> isLoading s"
  shows "length (messages (sendMessage env t s)) = length (messages s) + 2"
proof -
  obtain s' r where tr: "sendMessage_try env t (sendMessage_begin env t s) = (s', r)"
    by (cases "sendMessage_try env t (sendMessage_begin env t s)")
  have "messages s' = messages (sendMessage_begin env t s)"
    using sendMessage_try_messages [of env t "sendMessage_begin env t s"] tr by simp
  then have len: "length (messages s') = length (messages s) + 2"
    by (simp add: sendMessage_begin_def Let_def)
  show ?thesis
    using assms len tr
    by (cases r) (auto simp: sendMessage_def Let_def setResponse_def)
qed

text \<open>
  \<^bold>\<open>C9.\<close> The routing of a message is a function of its text in which the maps keywords
  come first: a text whose lower-case form contains one of \<open>where\<close>, \<open>nearby\<close>,
  \<open>directions\<close>, \<open>restaurants\<close>, \<open>locations\<close>, \<open>find\<close> as a substring goes to maps grounding,
  whatever else it contains; search grounding is used exactly when no maps keyword occurs
  and a search keyword does; otherwise plain chat is used. Containment is of substrings
  of the lower-case text, so two texts with the same lower-case form are routed alike and
  a keyword matches inside a longer word.
\<close>

theorem route_of_maps_before_search:
  "route_of t =
     (if \<exists>k \<in> set [''where'', ''nearby'', ''directions'', ''restaurants'', ''locations'', ''find''].
           \<exists>pre post. toLowerCase t = pre @ k @ post
      then MapsGrounding
      else if \<exists>k \<in> set SEARCH_KEYWORDS. \<exists>pre post. toLowerCase t = pre @ k @ post
      then SearchGrounding
      else StandardChat)
   \<and> (toLowerCase t = toLowerCase t' \<longrightarrow> route_of t = route_of t')"
  unfolding route_of_def hasGroundingKeywords_iff MAPS_KEYWORDS_def
  by simp

theorem route_of_maps_before_search_witness:
  "route_of ''FINDING the latest Newspaper'' = MapsGrounding
   \<and> route_of ''FINDING the latest Newspaper'' = route_of ''finding the latest newspaper''"
proof -
  let ?t = "''FINDING the latest Newspaper''"
  let ?t' = "''finding the latest newspaper''"
  have low: "toLowerCase ?t = ?t'" "toLowerCase ?t' = ?t'"
    by (simp_all add: toLowerCase_def toLowerChar_def capital_letters_def small_letters_def)
  have "toLowerCase ?t = [] @ ''find'' @ ''ing the latest newspaper''"
    using low by simp
  then have ex: "\<exists>k \<in> set [''where'', ''nearby'', ''directions'', ''restaurants'', ''locations'', ''find''].
           \<exists>pre post. toLowerCase ?t = pre @ k @ post"
    by (intro bexI [of _ "''find''"] exI [of _ "[]"] exI [of _ "''ing the latest newspaper''"])
       simp_all
  have same: "toLowerCase ?t = toLowerCase ?t'"
    using low by simp
  note main = route_of_maps_before_search [of ?t ?t']
  have r1: "route_of ?t = MapsGrounding"
    using main [THEN conjunct1] ex by (simp only: if_True)
  have r2: "route_of ?t = route_of ?t'"
    using main [THEN conjunct2] same by blast
  show ?thesis using r1 r2 by blast
qed

text \<open>
  \<^bold>\<open>C10.\<close> When the text given to \<^verbatim>\<open>sendMessage\<close> is empty or consists of white space only
  (the characters that \<^verbatim>\<open>trim\<close> removes, the no-break space among them), or a send is in
  flight (\<open>isLoading\<close>), the call returns the state it was given: the message list, the
  input field and the loading flag are unchanged, in both versions of the function.
\<close>

theorem sendMessage_guard_no_change:
  assumes "(\<forall>c \<in> set messageText. isWhiteSpace c) \<or> isLoading s"
  shows "sendMessage env messageText s = s
       \<and> sendMessage_part000 env now_err messageText s = s
       \<and> messages (sendMessage env messageText s) = messages s
       \<and> input (sendMessage env messageText s) = input s
       \<and> isLoading (sendMessage env messageText s) = isLoading s"
proof -
  have "trim messageText = [] \<or> isLoading s"
    using assms trim_empty_iff by blast
  then show ?thesis
    by (auto simp: sendMessage_def sendMessage_part000_def)
qed

theorem sendMessage_guard_no_change_witness:
  "sendMessage \<lparr>now_user = 1700000000000, now_ai = 1700000000000,
                client_send = Resolved (), position = Resolved (),
                generated = Rejected OtherThrown\<rparr>
     [CHR 0x20, CHR 0xA0, CHR 0x09] (initial_state\<lparr>input := [CHR 0x20, CHR 0xA0, CHR 0x09]\<rparr>)
   = initial_state\<lparr>input := [CHR 0x20, CHR 0xA0, CHR 0x09]\<rparr>
   \<and> sendMessage \<lparr>now_user = 1700000000000, now_ai = 1700000000000,
                  client_send = Resolved (), position = Resolved (),
                  generated = Rejected OtherThrown\<rparr>
       ''find me'' (initial_state\<lparr>isLoading := True\<rparr>)
   = initial_state\<lparr>isLoading := True\<rparr>"
proof -
  have a: "(\<forall>c \<in> set [CHR 0x20, CHR 0xA0, CHR 0x09]. isWhiteSpace c)
           \<or> isLoading (initial_state\<lparr>input := [CHR 0x20, CHR 0xA0, CHR 0x09]\<rparr>)"
    by (simp add: isWhiteSpace_def)
  have b: "(\<forall>c \<in> set ''find me''. isWhiteSpace c) \<or> isLoading (initial_state\<lparr>isLoading := True\<rparr>)"
    by simp
  from sendMessage_guard_no_change [OF a] sendMessage_guard_no_change [OF b]
  show ?thesis by blast
qed

subsection \<open>Codec\<close>

lemma index_of_nth: "distinct xs \<Longrightarrow> n < length xs \<Longrightarrow> index_of (xs ! n) xs = Some n"
proof (induction xs arbitrary: n)
  case Nil
  then show ?case by simp
next
  case (Cons x xs)
  show ?case
  proof (cases n)
    case 0
    then show ?thesis by simp
  next
    case (Suc m)
    with Cons.prems have "xs ! m \<noteq> x" by auto
    with Suc Cons show ?thesis by simp
  qed
qed

lemma distinct_alphabet: "distinct base64_alphabet"
  by (simp add: base64_alphabet_def)

lemma length_alphabet: "length base64_alphabet = 64"
  by (simp add: base64_alphabet_def)

lemma base64_value_char: "n < 64 \<Longrightarrow> base64_value (base64_char n) = Some n"
  by (simp add: base64_value_def base64_char_def index_of_nth distinct_alphabet length_alphabet)

lemma base64_value_pad: "base64_value (CHR ''='') = None"
  by (simp add: base64_value_def base64_alphabet_def)

lemma base64_char_not_pad: "n < 64 \<Longrightarrow> base64_char n \<noteq> CHR ''=''"
  using base64_value_char base64_value_pad by fastforce

lemma sextet_bounds:
  fixes a b c :: nat
  assumes "a < 256" "b < 256" "c < 256"
  shows "a div 4 < 64" "a mod 4 * 16 + b div 16 < 64" "b mod 16 * 4 + c div 64 < 64"
        "c mod 64 < 64" "a mod 4 * 16 < 64" "b mod 16 * 4 < 64"
  using assms by linarith+

lemma regroup:
  fixes a b c :: nat
  assumes "a < 256" "b < 256" "c < 256"
  shows "a div 4 * 4 + (a mod 4 * 16 + b div 16) div 16 = a"
    and "(a mod 4 * 16 + b div 16) mod 16 * 16 + (b mod 16 * 4 + c div 64) div 4 = b"
    and "(b mod 16 * 4 + c div 64) mod 4 * 64 + c mod 64 = c"
    and "a div 4 * 4 + (a mod 4 * 16) div 16 = a"
    and "(a mod 4 * 16 + b div 16) mod 16 * 16 + (b mod 16 * 4) div 4 = b"
  using assms by simp_all

lemma of_nat_unat8: "of_nat (unat (a :: 8 word)) = a"
  by simp

lemma unat8: "unat (a :: 8 word) < 256"
  using unsigned_less [of a] by simp

lemma decode_quad:
  assumes "s0 < 64" "s1 < 64" "s2 < 64" "s3 < 64"
  shows "decode (base64_char s0 # base64_char s1 # base64_char s2 # base64_char s3 # rest) =
     (case decode rest of
        Inl e \<Rightarrow> Inl e
      | Inr bs \<Rightarrow> Inr (of_nat (s0 * 4 + s1 div 16) # of_nat (s1 mod 16 * 16 + s2 div 4)
                        # of_nat (s2 mod 4 * 64 + s3) # bs))"
  using assms by (simp add: base64_value_char base64_char_not_pad)

lemma decode_pad1:
  assumes "s0 < 64" "s1 < 64" "s2 < 64"
  shows "decode [base64_char s0, base64_char s1, base64_char s2, CHR ''=''] =
     Inr [of_nat (s0 * 4 + s1 div 16), of_nat (s1 mod 16 * 16 + s2 div 4)]"
  using assms by (simp add: base64_value_char base64_char_not_pad)

lemma decode_pad2:
  assumes "s0 < 64" "s1 < 64"
  shows "decode [base64_char s0, base64_char s1, CHR ''='', CHR ''=''] =
     Inr [of_nat (s0 * 4 + s1 div 16)]"
  using assms by (simp add: base64_value_char)

lemma length_encode: "length (encode b) = 4 * ((length b + 2) div 3)"
proof (induction b rule: encode.induct)
  case (4 a b c rest)
  have "(length (a # b # c # rest) + 2) div 3 = (length rest + 2 + 3) div 3"
    by (simp add: add.commute)
  also have "\<dots> = (length rest + 2) div 3 + 1"
    by (simp only: div_add_self2)
  finally show ?case using 4 by simp
qed simp_all

text \<open>
  \<^bold>\<open>C3.\<close> Decoding the encoding of a byte buffer gives the buffer back, for every buffer; the
  encoding has four characters for every group of three bytes, the last group padded.
\<close>

theorem decode_encode_roundtrip:
  "decode (encode b) = Inr b \<and> length (encode b) = 4 * ((length b + 2) div 3)"
proof (induction b rule: encode.induct)
  case 1
  show ?case by simp
next
  case (2 a)
  have a: "unat a < 256" by (rule unat8)
  note bounds = sextet_bounds [OF a a a]
  have "decode (encode [a]) = Inr [of_nat (unat a div 4 * 4 + unat a mod 4 * 16 div 16)]"
    by (simp only: encode.simps decode_pad2 [OF bounds(1) bounds(5)])
  also have "\<dots> = Inr [a]"
    by (simp only: regroup(4) [OF a a a] of_nat_unat8)
  finally show ?case by (simp only: length_encode simp_thms)
next
  case (3 a b)
  have a: "unat a < 256" and b: "unat b < 256" by (rule unat8)+
  note bounds = sextet_bounds [OF a b b]
  have "decode (encode [a, b]) =
      Inr [of_nat (unat a div 4 * 4 + (unat a mod 4 * 16 + unat b div 16) div 16),
           of_nat ((unat a mod 4 * 16 + unat b div 16) mod 16 * 16 + unat b mod 16 * 4 div 4)]"
    by (simp only: encode.simps decode_pad1 [OF bounds(1) bounds(2) bounds(6)])
  also have "\<dots> = Inr [a, b]"
    by (simp only: regroup(1) [OF a b b] regroup(5) [OF a b b] of_nat_unat8)
  finally show ?case by (simp only: length_encode simp_thms)
next
  case (4 a b c rest)
  have a: "unat a < 256" and b: "unat b < 256" and c: "unat c < 256" by (rule unat8)+
  note bounds = sextet_bounds [OF a b c]
  have ih: "decode (encode rest) = Inr rest" using 4 by blast
  have "decode (encode (a # b # c # rest)) =
      Inr (of_nat (unat a div 4 * 4 + (unat a mod 4 * 16 + unat b div 16) div 16)
           # of_nat ((unat a mod 4 * 16 + unat b div 16) mod 16 * 16
                     + (unat b mod 16 * 4 + unat c div 64) div 4)
           # of_nat ((unat b mod 16 * 4 + unat c div 64) mod 4 * 64 + unat c mod 64)
           # rest)"
    by (simp only: encode.simps append_Cons append_Nil
          decode_quad [OF bounds(1) bounds(2) bounds(3) bounds(4)] ih sum.case)
  also have "\<dots> = Inr (a # b # c # rest)"
    by (simp only: regroup(1-3) [OF a b c] of_nat_unat8)
  finally show ?case by (simp only: length_encode simp_thms)
qed

subsection \<open>PCM framer\<close>

lemma fill_int16_eq:
  "length int16 = l \<Longrightarrow> length inputData = l \<Longrightarrow> i \<le> l \<Longrightarrow>
   fill_int16 i l inputData int16 =
     take i int16 @ map (\<lambda>x. ToInt16 (x * 32768)) (drop i inputData)"
proof (induction i l inputData int16 rule: fill_int16.induct)
  case (1 i l inputData int16)
  show ?case
  proof (cases "i < l")
    case True
    let ?v = "ToInt16 (inputData ! i * 32768)"
    have "fill_int16 i l inputData int16 = fill_int16 (i + 1) l inputData (int16[i := ?v])"
      using True by (subst fill_int16.simps) simp
    also have "\<dots> = take (i + 1) (int16[i := ?v])
                     @ map (\<lambda>x. ToInt16 (x * 32768)) (drop (i + 1) inputData)"
      using "1.IH" [OF True] "1.prems" True by simp
    also have "take (i + 1) (int16[i := ?v]) = take i int16 @ [?v]"
      using "1.prems" True by (simp add: take_Suc_conv_app_nth)
    also have "(take i int16 @ [?v]) @ map (\<lambda>x. ToInt16 (x * 32768)) (drop (i + 1) inputData)
             = take i int16 @ map (\<lambda>x. ToInt16 (x * 32768)) (drop i inputData)"
      using "1.prems" True by (simp add: Cons_nth_drop_Suc [symmetric])
    finally show ?thesis .
  next
    case False
    with "1.prems" have "i = l" by simp
    then show ?thesis
      using "1.prems" by (subst fill_int16.simps) simp
  qed
qed

lemma pcm_frame_map: "pcm_frame inputData = map (\<lambda>x. ToInt16 (x * 32768)) inputData"
  by (simp add: pcm_frame_def Let_def fill_int16_eq)

lemma truncate_zero_alt: "truncate_zero x = (if 0 \<le> x then \<lfloor>x\<rfloor> else \<lceil>x\<rceil>)"
  by (simp add: truncate_zero_def ceiling_def abs_if)

lemma sint_ToInt16: "sint (ToInt16 x) = (truncate_zero x + 32768) mod 65536 - 32768"
  by (simp add: ToInt16_def int_word_sint)

lemma truncate_zero_range:
  assumes "- 32768 \<le> y" "y < 32768"
  shows "- 32768 \<le> truncate_zero y" "truncate_zero y < 32768"
  using assms by (auto simp: truncate_zero_alt)

text \<open>
  \<^bold>\<open>C2.\<close> The frame has as many elements as the buffer has samples; each element
  is the product of the sample and 32768 with its fraction discarded, towards zero, and
  then wrapped modulo \<open>2 ^ 16\<close> into the signed 16-bit range. Nothing is clamped: for a
  sample in \<open>[-1, 1)\<close> the element is the truncated product itself, and outside this
  range it wraps around.
\<close>

theorem pcm_frame_truncates:
  "length (pcm_frame inputData) = length inputData
   \<and> (\<forall>i < length inputData.
        sint (pcm_frame inputData ! i) =
          ((if 0 \<le> inputData ! i * 32768 then \<lfloor>inputData ! i * 32768\<rfloor>
            else \<lceil>inputData ! i * 32768\<rceil>) + 32768) mod 65536 - 32768
        \<and> (- 1 \<le> inputData ! i \<and> inputData ! i < 1 \<longrightarrow>
             sint (pcm_frame inputData ! i) =
               (if 0 \<le> inputData ! i * 32768 then \<lfloor>inputData ! i * 32768\<rfloor>
                else \<lceil>inputData ! i * 32768\<rceil>)))"
proof (intro conjI allI impI)
  show "length (pcm_frame inputData) = length inputData"
    by (simp add: pcm_frame_map)
next
  fix i assume i: "i < length inputData"
  then show "sint (pcm_frame inputData ! i) =
          ((if 0 \<le> inputData ! i * 32768 then \<lfloor>inputData ! i * 32768\<rfloor>
            else \<lceil>inputData ! i * 32768\<rceil>) + 32768) mod 65536 - 32768"
    by (simp only: pcm_frame_map nth_map sint_ToInt16 truncate_zero_alt)
next
  fix i assume i: "i < length inputData"
    and r: "- 1 \<le> inputData ! i \<and> inputData ! i < 1"
  let ?y = "inputData ! i * 32768"
  have "- 32768 \<le> ?y" "?y < 32768" using r by simp_all
  then have "- 32768 \<le> truncate_zero ?y" "truncate_zero ?y < 32768"
    by (rule truncate_zero_range)+
  then have "(truncate_zero ?y + 32768) mod 65536 - 32768 = truncate_zero ?y"
    by simp
  then have "sint (pcm_frame inputData ! i) = truncate_zero ?y"
    using i by (simp only: pcm_frame_map nth_map sint_ToInt16)
  then show "sint (pcm_frame inputData ! i) =
               (if 0 \<le> ?y then \<lfloor>?y\<rfloor> else \<lceil>?y\<rceil>)"
    by (simp only: truncate_zero_alt)
qed

theorem pcm_frame_truncates_witness:
  "length (pcm_frame [3 / 131072, 1, - 3 / 131072]) = 3
   \<and> sint (pcm_frame [3 / 131072, 1, - 3 / 131072] ! 0) = 0
   \<and> sint (pcm_frame [3 / 131072, 1, - 3 / 131072] ! 1) = - 32768
   \<and> sint (pcm_frame [3 / 131072, 1, - 3 / 131072] ! 2) = 0"
proof -
  let ?xs = "[3 / 131072, 1, - 3 / 131072] :: real list"
  note t = pcm_frame_truncates [of ?xs]
  have l: "length (pcm_frame ?xs) = 3" using t by simp
  have "(0::nat) < length ?xs" by simp
  with t have "sint (pcm_frame ?xs ! 0) =
          ((if 0 \<le> ?xs ! 0 * 32768 then \<lfloor>?xs ! 0 * 32768\<rfloor>
            else \<lceil>?xs ! 0 * 32768\<rceil>) + 32768) mod 65536 - 32768" by blast
  then have e0: "sint (pcm_frame ?xs ! 0) = 0" by simp
  have "(1::nat) < length ?xs" by simp
  with t have "sint (pcm_frame ?xs ! 1) =
          ((if 0 \<le> ?xs ! 1 * 32768 then \<lfloor>?xs ! 1 * 32768\<rfloor>
            else \<lceil>?xs ! 1 * 32768\<rceil>) + 32768) mod 65536 - 32768" by blast
  then have e1: "sint (pcm_frame ?xs ! 1) = - 32768" by simp
  have "(2::nat) < length ?xs" "- 1 \<le> ?xs ! 2 \<and> ?xs ! 2 < 1" by simp_all
  with t have "sint (pcm_frame ?xs ! 2) =
               (if 0 \<le> ?xs ! 2 * 32768 then \<lfloor>?xs ! 2 * 32768\<rfloor>
                else \<lceil>?xs ! 2 * 32768\<rceil>)" by blast
  then have e2: "sint (pcm_frame ?xs ! 2) = 0" by (simp add: ceiling_def)
  show ?thesis using l e0 e1 e2 by blast
qed

theorem pcm_frame_round_counterexample:
  "pcm_frame [3 / 131072] \<noteq> pcm_frame_spec [3 / 131072]"
  by (simp add: pcm_frame_map pcm_frame_spec_def ToInt16_def truncate_zero_def round_def)

subsection \<open>Playback scheduler\<close>

lemma duration_nonneg: "0 \<le> duration b"
  by (simp add: duration_def)

lemma on_inputTranscription_sched:
  "started (fst (on_inputTranscription env t st)) = started (fst st)"
  "nextStartTime (fst (on_inputTranscription env t st)) = nextStartTime (fst st)"
  by (cases st; simp add: on_inputTranscription_def Let_def)+

lemma on_outputTranscription_sched:
  "started (fst (on_outputTranscription env t st)) = started (fst st)"
  "nextStartTime (fst (on_outputTranscription env t st)) = nextStartTime (fst st)"
  by (cases st; simp add: on_outputTranscription_def Let_def)+

lemma on_turnComplete_sched:
  "started (fst (on_turnComplete st)) = started (fst st)"
  "nextStartTime (fst (on_turnComplete st)) = nextStartTime (fst st)"
  by (cases st; simp add: on_turnComplete_def Let_def)+

lemma onmessage_sched:
  "\<exists>L3. started L3 = started (fst st) \<and> nextStartTime L3 = nextStartTime (fst st)
        \<and> fst (snd (onmessage env m st)) = snd (on_audio env m L3)
        \<and> fst (onmessage env m st) = fst (on_audio env m L3)"
proof -
  define st1 where "st1 = (case inputTranscription m of None \<Rightarrow> st
                           | Some t \<Rightarrow> on_inputTranscription env t st)"
  define st2 where "st2 = (case outputTranscription m of None \<Rightarrow> st1
                           | Some t \<Rightarrow> on_outputTranscription env t st1)"
  define st3 where "st3 = (if turnComplete m then on_turnComplete st2 else st2)"
  have 1: "started (fst st1) = started (fst st)" "nextStartTime (fst st1) = nextStartTime (fst st)"
    by (simp_all add: st1_def on_inputTranscription_sched split: option.splits)
  have 2: "started (fst st2) = started (fst st)" "nextStartTime (fst st2) = nextStartTime (fst st)"
    by (simp_all add: st2_def 1 on_outputTranscription_sched split: option.splits)
  have 3: "started (fst st3) = started (fst st)" "nextStartTime (fst st3) = nextStartTime (fst st)"
    by (simp_all add: st3_def 2 on_turnComplete_sched)
  have "onmessage env m st = (case on_audio env m (fst st3) of (err, L4) \<Rightarrow> (err, L4, snd st3))"
    unfolding onmessage_def Let_def st3_def st2_def st1_def by (rule refl)
  then have "fst (snd (onmessage env m st)) = snd (on_audio env m (fst st3))"
    "fst (onmessage env m st) = fst (on_audio env m (fst st3))"
    by (simp_all add: case_prod_beta)
  with 3 show ?thesis by blast
qed

lemma on_audio_cases:
  "(started (snd (on_audio env m L)) = started L
      \<and> (nextStartTime (snd (on_audio env m L)) = nextStartTime L
          \<or> nextStartTime (snd (on_audio env m L)) = max (nextStartTime L) (currentTime env)))
   \<or> (\<exists>b. fst (on_audio env m L) = None
          \<and> started (snd (on_audio env m L)) =
              started L @ [\<lparr>startTime = max (nextStartTime L) (currentTime env), buffer = b,
                            clockAtEnqueue = currentTime env\<rparr>]
          \<and> nextStartTime (snd (on_audio env m L)) =
              max (nextStartTime L) (currentTime env) + duration b)"
  by (simp add: on_audio_def audio_arrive_def audio_resume_def Let_def split: sum.splits)

lemma on_audio_mono: "nextStartTime L \<le> nextStartTime (snd (on_audio env m L))"
  by (simp add: on_audio_def audio_arrive_def audio_resume_def Let_def duration_nonneg add_increasing2 split: sum.splits)

lemma on_audio_inv:
  assumes chain: "successively (\<lambda>e e'. startTime e + duration (buffer e) \<le> startTime e') (started L)"
    and ends: "\<forall>e \<in> set (started L). clockAtEnqueue e \<le> startTime e
                 \<and> startTime e + duration (buffer e) \<le> nextStartTime L"
  shows "successively (\<lambda>e e'. startTime e + duration (buffer e) \<le> startTime e')
           (started (snd (on_audio env m L)))"
    and "\<forall>e \<in> set (started (snd (on_audio env m L))). clockAtEnqueue e \<le> startTime e
           \<and> startTime e + duration (buffer e) \<le> nextStartTime (snd (on_audio env m L))"
    and "nextStartTime L \<le> nextStartTime (snd (on_audio env m L))"
proof -
  let ?L' = "snd (on_audio env m L)"
  let ?mx = "max (nextStartTime L) (currentTime env)"
  consider
    (same) "started ?L' = started L"
      "nextStartTime ?L' = nextStartTime L \<or> nextStartTime ?L' = ?mx"
  | (new) b where
      "started ?L' = started L @ [\<lparr>startTime = ?mx, buffer = b, clockAtEnqueue = currentTime env\<rparr>]"
      "nextStartTime ?L' = ?mx + duration b"
    using on_audio_cases [of env m L] by blast
  then have "successively (\<lambda>e e'. startTime e + duration (buffer e) \<le> startTime e') (started ?L')
      \<and> (\<forall>e \<in> set (started ?L'). clockAtEnqueue e \<le> startTime e
           \<and> startTime e + duration (buffer e) \<le> nextStartTime ?L')
      \<and> nextStartTime L \<le> nextStartTime ?L'"
  proof cases
    case same
    from same(2) have "nextStartTime L \<le> nextStartTime ?L'" by auto
    with same(1) chain ends show ?thesis by fastforce
  next
    case new
    have d: "0 \<le> duration b" by (rule duration_nonneg)
    have le: "nextStartTime L \<le> nextStartTime ?L'" using new(2) d by simp
    have last: "started L \<noteq> [] \<Longrightarrow>
        startTime (last (started L)) + duration (buffer (last (started L))) \<le> ?mx"
      using ends last_in_set [of "started L"] by fastforce
    have c: "successively (\<lambda>e e'. startTime e + duration (buffer e) \<le> startTime e') (started ?L')"
      unfolding new(1) successively_append_iff using chain last by auto
    have e: "\<forall>e \<in> set (started ?L'). clockAtEnqueue e \<le> startTime e
           \<and> startTime e + duration (buffer e) \<le> nextStartTime ?L'"
      unfolding new(1) using ends le new(2) by fastforce
    from c e le show ?thesis by blast
  qed
  then show "successively (\<lambda>e e'. startTime e + duration (buffer e) \<le> startTime e') (started ?L')"
    and "\<forall>e \<in> set (started ?L'). clockAtEnqueue e \<le> startTime e
           \<and> startTime e + duration (buffer e) \<le> nextStartTime ?L'"
    and "nextStartTime L \<le> nextStartTime ?L'"
    by blast+
qed

lemma onmessage_inv:
  assumes "successively (\<lambda>e e'. startTime e + duration (buffer e) \<le> startTime e') (started (fst st))"
    and "\<forall>e \<in> set (started (fst st)). clockAtEnqueue e \<le> startTime e
                 \<and> startTime e + duration (buffer e) \<le> nextStartTime (fst st)"
  shows "successively (\<lambda>e e'. startTime e + duration (buffer e) \<le> startTime e')
           (started (fst (snd (onmessage env m st))))"
    and "\<forall>e \<in> set (started (fst (snd (onmessage env m st)))). clockAtEnqueue e \<le> startTime e
           \<and> startTime e + duration (buffer e) \<le> nextStartTime (fst (snd (onmessage env m st)))"
    and "nextStartTime (fst st) \<le> nextStartTime (fst (snd (onmessage env m st)))"
proof -
  obtain L3 where L3: "started L3 = started (fst st)" "nextStartTime L3 = nextStartTime (fst st)"
    "fst (snd (onmessage env m st)) = snd (on_audio env m L3)"
    using onmessage_sched [of st env m] by blast
  have a: "successively (\<lambda>e e'. startTime e + duration (buffer e) \<le> startTime e') (started L3)"
    using assms(1) L3(1) by simp
  have b: "\<forall>e \<in> set (started L3). clockAtEnqueue e \<le> startTime e
                 \<and> startTime e + duration (buffer e) \<le> nextStartTime L3"
    using assms(2) L3(1,2) by simp
  note r = on_audio_inv [OF a b, of env m]
  show "successively (\<lambda>e e'. startTime e + duration (buffer e) \<le> startTime e')
           (started (fst (snd (onmessage env m st))))"
    using r(1) L3(3) by simp
  show "\<forall>e \<in> set (started (fst (snd (onmessage env m st)))). clockAtEnqueue e \<le> startTime e
           \<and> startTime e + duration (buffer e) \<le> nextStartTime (fst (snd (onmessage env m st)))"
    using r(2) L3(3) by simp
  show "nextStartTime (fst st) \<le> nextStartTime (fst (snd (onmessage env m st)))"
    using r(3) L3(2,3) by simp
qed

lemma onmessage_cursor_mono:
  "nextStartTime (fst st) \<le> nextStartTime (fst (snd (onmessage env m st)))"
proof -
  obtain L3 where L3: "started L3 = started (fst st)" "nextStartTime L3 = nextStartTime (fst st)"
    "fst (snd (onmessage env m st)) = snd (on_audio env m L3)"
    using onmessage_sched [of st env m] by blast
  have "nextStartTime L3 \<le> nextStartTime (snd (on_audio env m L3))"
    by (rule on_audio_mono)
  then show ?thesis using L3 by simp
qed

lemma onmessages_inv:
  assumes "successively (\<lambda>e e'. startTime e + duration (buffer e) \<le> startTime e') (started (fst st))"
    and "\<forall>e \<in> set (started (fst st)). clockAtEnqueue e \<le> startTime e
                 \<and> startTime e + duration (buffer e) \<le> nextStartTime (fst st)"
  shows "successively (\<lambda>e e'. startTime e + duration (buffer e) \<le> startTime e')
           (started (fst (onmessages evs st)))
       \<and> (\<forall>e \<in> set (started (fst (onmessages evs st))). clockAtEnqueue e \<le> startTime e
           \<and> startTime e + duration (buffer e) \<le> nextStartTime (fst (onmessages evs st)))
       \<and> nextStartTime (fst st) \<le> nextStartTime (fst (onmessages evs st))"
  using assms
proof (induction evs arbitrary: st)
  case Nil
  then show ?case by simp
next
  case (Cons ev evs)
  obtain env m where ev: "ev = (env, m)" by (cases ev)
  let ?st' = "snd (onmessage env m st)"
  note step = onmessage_inv [OF Cons.prems, of env m]
  note ih = Cons.IH [OF step(1) step(2)]
  have "nextStartTime (fst st) \<le> nextStartTime (fst (onmessages evs ?st'))"
    using step(3) ih by linarith
  with ih show ?case by (simp add: ev)
qed

text \<open>
  \<^bold>\<open>C1.\<close> Whatever messages the handler has processed since the session started, the entries
  it has scheduled do not overlap (each starts no earlier than the end of the one before),
  none starts before the output clock read when it was enqueued, and the cursor has not
  gone back; a further message never lowers the cursor, and the entry it schedules, if
  any, starts at the maximum of the cursor and the clock.
\<close>

theorem playback_schedule_no_overlap:
  assumes "L = fst (onmessages evs (new_live_state ctx, s0))"
  shows "(\<forall>i. Suc i < length (started L) \<longrightarrow>
            startTime (started L ! i) + duration (buffer (started L ! i))
              \<le> startTime (started L ! Suc i))
       \<and> (\<forall>e \<in> set (started L). clockAtEnqueue e \<le> startTime e)
       \<and> nextStartTime (new_live_state ctx) \<le> nextStartTime L
       \<and> (\<forall>env m s. nextStartTime L \<le> nextStartTime (fst (snd (onmessage env m (L, s)))))
       \<and> (\<forall>env m s.
            started (fst (snd (onmessage env m (L, s)))) = started L
            \<or> (\<exists>b. started (fst (snd (onmessage env m (L, s)))) =
                     started L @ [\<lparr>startTime = max (nextStartTime L) (currentTime env),
                                   buffer = b, clockAtEnqueue = currentTime env\<rparr>]))"
proof -
  let ?st0 = "(new_live_state ctx, s0)"
  have a: "successively (\<lambda>e e'. startTime e + duration (buffer e) \<le> startTime e')
             (started (fst ?st0))"
    by (simp add: new_live_state_def)
  have b: "\<forall>e \<in> set (started (fst ?st0)). clockAtEnqueue e \<le> startTime e
             \<and> startTime e + duration (buffer e) \<le> nextStartTime (fst ?st0)"
    by (simp add: new_live_state_def)
  note inv = onmessages_inv [OF a b, of evs, folded assms]
  have 1: "\<forall>i. Suc i < length (started L) \<longrightarrow>
            startTime (started L ! i) + duration (buffer (started L ! i))
              \<le> startTime (started L ! Suc i)"
    using inv by (simp add: successively_conv_nth)
  have 2: "\<forall>e \<in> set (started L). clockAtEnqueue e \<le> startTime e"
    using inv by blast
  have 3: "nextStartTime (new_live_state ctx) \<le> nextStartTime L"
    using inv by simp
  have 4: "\<forall>env m s. nextStartTime L \<le> nextStartTime (fst (snd (onmessage env m (L, s))))"
    using onmessage_cursor_mono [of "(L, _)"] by simp
  have 5: "\<forall>env m s.
            started (fst (snd (onmessage env m (L, s)))) = started L
            \<or> (\<exists>b. started (fst (snd (onmessage env m (L, s)))) =
                     started L @ [\<lparr>startTime = max (nextStartTime L) (currentTime env),
                                   buffer = b, clockAtEnqueue = currentTime env\<rparr>])"
  proof (intro allI)
    fix env m s
    obtain L3 where L3: "started L3 = started L" "nextStartTime L3 = nextStartTime L"
      "fst (snd (onmessage env m (L, s))) = snd (on_audio env m L3)"
      using onmessage_sched [of "(L, s)" env m] by auto
    show "started (fst (snd (onmessage env m (L, s)))) = started L
            \<or> (\<exists>b. started (fst (snd (onmessage env m (L, s)))) =
                     started L @ [\<lparr>startTime = max (nextStartTime L) (currentTime env),
                                   buffer = b, clockAtEnqueue = currentTime env\<rparr>])"
      using on_audio_cases [of env m L3] L3 by auto
  qed
  from 1 2 3 4 5 show ?thesis by blast
qed

theorem playback_schedule_no_overlap_witness:
  "length (started (fst (onmessages
       [(\<lparr>now_input = 0, now_output = 0, currentTime = 1\<rparr>, AudioChunk ''AAAAAA==''),
        (\<lparr>now_input = 0, now_output = 0, currentTime = 1\<rparr>, AudioChunk ''AAAAAA=='')]
       (new_live_state 0, initial_state)))) = 2
   \<and> startTime (started (fst (onmessages
       [(\<lparr>now_input = 0, now_output = 0, currentTime = 1\<rparr>, AudioChunk ''AAAAAA==''),
        (\<lparr>now_input = 0, now_output = 0, currentTime = 1\<rparr>, AudioChunk ''AAAAAA=='')]
       (new_live_state 0, initial_state))) ! 0)
     + duration (buffer (started (fst (onmessages
       [(\<lparr>now_input = 0, now_output = 0, currentTime = 1\<rparr>, AudioChunk ''AAAAAA==''),
        (\<lparr>now_input = 0, now_output = 0, currentTime = 1\<rparr>, AudioChunk ''AAAAAA=='')]
       (new_live_state 0, initial_state))) ! 0))
     \<le> startTime (started (fst (onmessages
       [(\<lparr>now_input = 0, now_output = 0, currentTime = 1\<rparr>, AudioChunk ''AAAAAA==''),
        (\<lparr>now_input = 0, now_output = 0, currentTime = 1\<rparr>, AudioChunk ''AAAAAA=='')]
       (new_live_state 0, initial_state))) ! Suc 0)"
proof -
  define L where "L = fst (onmessages
       [(\<lparr>now_input = 0, now_output = 0, currentTime = 1\<rparr>, AudioChunk ''AAAAAA==''),
        (\<lparr>now_input = 0, now_output = 0, currentTime = 1\<rparr>, AudioChunk ''AAAAAA=='')]
       (new_live_state 0, initial_state))"
  have len: "length (started L) = 2"
    unfolding L_def
    by (simp add: onmessage_def on_audio_def audio_arrive_def audio_resume_def AudioChunk_def base64Audio_of_def truthy_def
          decodeAudioData_def base64_value_def base64_alphabet_def new_live_state_def Let_def)
  then have "Suc 0 < length (started L)" by simp
  with playback_schedule_no_overlap [OF L_def]
  have "startTime (started L ! 0) + duration (buffer (started L ! 0))
          \<le> startTime (started L ! Suc 0)"
    by blast
  with len show ?thesis unfolding L_def by blast
qed

subsection \<open>Malformed audio chunks\<close>

lemma on_inputTranscription_app: "snd (on_inputTranscription env t st) = snd st"
  by (cases st) (simp add: on_inputTranscription_def Let_def)

lemma on_outputTranscription_app: "snd (on_outputTranscription env t st) = snd st"
  by (cases st) (simp add: on_outputTranscription_def Let_def)

lemma on_turnComplete_app: "snd (on_turnComplete st) = snd st"
  by (cases st) (simp add: on_turnComplete_def Let_def)

lemma onmessage_app_frame: "snd (snd (onmessage env m st)) = snd st"
proof -
  define st1 where "st1 = (case inputTranscription m of None \<Rightarrow> st
                           | Some t \<Rightarrow> on_inputTranscription env t st)"
  define st2 where "st2 = (case outputTranscription m of None \<Rightarrow> st1
                           | Some t \<Rightarrow> on_outputTranscription env t st1)"
  define st3 where "st3 = (if turnComplete m then on_turnComplete st2 else st2)"
  have 1: "snd st1 = snd st"
    by (simp add: st1_def on_inputTranscription_app split: option.splits)
  have 2: "snd st2 = snd st"
    by (simp add: st2_def 1 on_outputTranscription_app split: option.splits)
  have 3: "snd st3 = snd st"
    by (simp add: st3_def 2 on_turnComplete_app)
  have "onmessage env m st =
      (case on_audio env m (fst st3) of (err, L4) \<Rightarrow> (err, L4, snd st3))"
    unfolding onmessage_def Let_def st3_def st2_def st1_def by (rule refl)
  then have "snd (snd (onmessage env m st)) = snd st3"
    by (simp add: case_prod_beta)
  with 3 show ?thesis by simp
qed

lemma on_audio_malformed:
  assumes "base64Audio_of m = Inr (Some b64)" and "b64 \<noteq> []"
    and "decode b64 = Inr bytes" and "odd (length bytes)"
  shows "on_audio env m L =
     (Some MalformedAudioError, L\<lparr>nextStartTime := max (nextStartTime L) (currentTime env)\<rparr>)"
  using assms by (simp add: on_audio_def audio_arrive_def audio_resume_def truthy_def decodeAudioData_def Let_def odd_iff_mod_2_eq_one)

text \<open>
  \<^bold>\<open>C5.\<close> When the audio chunk of a message decodes to an odd number of bytes,
  the handler ends with \<open>MalformedAudioError\<close>; no entry is scheduled for the chunk and the
  cursor is not advanced by any duration: it holds the maximum of its old value and the
  output clock, so it is unchanged when it was not behind the clock. The handler changes
  nothing of the application state, so the session stays as it was.
\<close>

theorem malformed_chunk_dropped:
  assumes "base64Audio_of m = Inr (Some b64)" and "b64 \<noteq> []"
    and "decode b64 = Inr bytes" and "odd (length bytes)"
  shows "fst (onmessage env m (L, s)) = Some MalformedAudioError
       \<and> started (fst (snd (onmessage env m (L, s)))) = started L
       \<and> nextStartTime (fst (snd (onmessage env m (L, s))))
           = max (nextStartTime L) (currentTime env)
       \<and> (currentTime env \<le> nextStartTime L \<longrightarrow>
            nextStartTime (fst (snd (onmessage env m (L, s)))) = nextStartTime L)
       \<and> isListening (snd (snd (onmessage env m (L, s)))) = isListening s
       \<and> sessionPromiseRef (snd (snd (onmessage env m (L, s)))) = sessionPromiseRef s
       \<and> mediaStreamRef (snd (snd (onmessage env m (L, s)))) = mediaStreamRef s
       \<and> sessions (snd (snd (onmessage env m (L, s)))) = sessions s"
proof -
  obtain L3 where L3: "started L3 = started L" "nextStartTime L3 = nextStartTime L"
    "fst (snd (onmessage env m (L, s))) = snd (on_audio env m L3)"
    "fst (onmessage env m (L, s)) = fst (on_audio env m L3)"
    using onmessage_sched [of "(L, s)" env m] by auto
  note a = on_audio_malformed [OF assms, of env L3]
  have ms: "snd (snd (onmessage env m (L, s))) = s"
    using onmessage_app_frame [of env m "(L, s)"] by simp
  show ?thesis
    using L3 a ms by simp
qed

theorem malformed_chunk_dropped_witness:
  "fst (onmessage \<lparr>now_input = 0, now_output = 0, currentTime = 0\<rparr> (AudioChunk ''AAAA'')
          (new_live_state 0, initial_state)) = Some MalformedAudioError
   \<and> started (fst (snd (onmessage \<lparr>now_input = 0, now_output = 0, currentTime = 0\<rparr>
          (AudioChunk ''AAAA'') (new_live_state 0, initial_state)))) = []
   \<and> nextStartTime (fst (snd (onmessage \<lparr>now_input = 0, now_output = 0, currentTime = 0\<rparr>
          (AudioChunk ''AAAA'') (new_live_state 0, initial_state)))) = 0"
proof -
  have 1: "base64Audio_of (AudioChunk ''AAAA'') = Inr (Some ''AAAA'')"
    by (simp add: base64Audio_of_def AudioChunk_def)
  have 2: "''AAAA'' \<noteq> []" by simp
  have 3: "decode ''AAAA'' = Inr [0, 0, 0]"
    by (simp add: base64_value_def base64_alphabet_def)
  have 4: "odd (length [0, 0, 0 :: 8 word])" by simp
  from malformed_chunk_dropped [OF 1 2 3 4,
      of "\<lparr>now_input = 0, now_output = 0, currentTime = 0\<rparr>" "new_live_state 0" initial_state]
  show ?thesis by (simp add: new_live_state_def)
qed

theorem malformed_chunk_cursor_counterexample:
  "fst (onmessage \<lparr>now_input = 0, now_output = 0, currentTime = 5\<rparr> (AudioChunk ''AAAA'')
          (new_live_state 0, initial_state)) = Some MalformedAudioError
   \<and> nextStartTime (fst (snd (onmessage \<lparr>now_input = 0, now_output = 0, currentTime = 5\<rparr>
          (AudioChunk ''AAAA'') (new_live_state 0, initial_state))))
       \<noteq> nextStartTime (new_live_state 0)"
  by (simp add: onmessage_def on_audio_def audio_arrive_def audio_resume_def AudioChunk_def base64Audio_of_def truthy_def
        decodeAudioData_def base64_value_def base64_alphabet_def new_live_state_def Let_def)

subsection \<open>Transcript reconciler\<close>

lemma Number_toString_nonempty: "Number_toString n \<noteq> []"
  by (subst Number_toString.simps) simp

lemma setText_fresh: "ident \<notin> id_msg ` set pre \<Longrightarrow> setText ident t pre = pre"
  by (induction pre) (auto simp: setText_def)

lemma setText_last:
  "ident \<notin> id_msg ` set pre \<Longrightarrow>
   setText ident t (pre @ [\<lparr>id_msg = ident, role = r, text_msg = t0, sources = so,
                              isLoading_msg = lo\<rparr>])
     = pre @ [\<lparr>id_msg = ident, role = r, text_msg = t, sources = so, isLoading_msg = lo\<rparr>]"
  using setText_fresh [of ident pre t] by (simp add: setText_def)

text \<open>While the deltas of a turn arrive, each rendered before the next, there is one
  record for them whose text is the input so far between the markers.\<close>

lemma first_delta_rendered:
  assumes "\<not> truthy (userInputId L)" and "queued L = []"
  shows "render (snd (onmessage e (InputTranscriptDelta d) (L, s))) =
     (L\<lparr>currentInputTranscription := currentInputTranscription L @ d,
        userInputId := Some (Number_toString (now_input e))\<rparr>,
      s\<lparr>messages := messages s
          @ [\<lparr>id_msg = Some (Number_toString (now_input e)), role = USER,
              text_msg = ''*'' @ currentInputTranscription L @ d @ ''*'',
              sources = None, isLoading_msg = None\<rparr>]\<rparr>)"
  using assms
  by (simp add: render_def onmessage_def InputTranscriptDelta_def on_inputTranscription_def
        on_audio_def base64Audio_of_def truthy_def text_or_undefined_def Let_def)

lemma next_delta_rendered:
  assumes "userInputId L = Some u" and "u \<noteq> []" and "queued L = []"
    and "messages s = pre @ [\<lparr>id_msg = Some u, role = USER, text_msg = t0, sources = None,
                               isLoading_msg = None\<rparr>]"
    and "Some u \<notin> id_msg ` set pre"
  shows "render (snd (onmessage e (InputTranscriptDelta d) (L, s))) =
     (L\<lparr>currentInputTranscription := currentInputTranscription L @ d\<rparr>,
      s\<lparr>messages := pre
          @ [\<lparr>id_msg = Some u, role = USER,
              text_msg = ''*'' @ currentInputTranscription L @ d @ ''*'',
              sources = None, isLoading_msg = None\<rparr>]\<rparr>)"
  using assms
  by (simp add: render_def onmessage_def InputTranscriptDelta_def on_inputTranscription_def
        on_audio_def base64Audio_of_def truthy_def text_or_undefined_def Let_def setText_last)

text \<open>The end of a turn resets both buffers and both handles and queues the updater of line
  215. When the updater runs, the handle it compares with is \<^verbatim>\<open>null\<close> already: rendered
  right after the handler, it changes no message that has an identifier, so the record
  of the turn keeps its markers.\<close>

lemma turnComplete_resets:
  "currentInputTranscription (fst (snd (onmessage e TurnComplete (L, s)))) = []"
  "currentOutputTranscription (fst (snd (onmessage e TurnComplete (L, s)))) = []"
  "userInputId (fst (snd (onmessage e TurnComplete (L, s)))) = None"
  "aiResponseId (fst (snd (onmessage e TurnComplete (L, s)))) = None"
  "queued (fst (snd (onmessage e TurnComplete (L, s))))
     = queued L @ [SetUserText (currentInputTranscription L)]"
  by (simp_all add: onmessage_def TurnComplete_def on_turnComplete_def on_audio_def
        base64Audio_of_def truthy_def Let_def)

lemma turnComplete_rendered_changes_nothing:
  assumes "queued L = []" and "None \<notin> id_msg ` set (messages s)"
  shows "messages (snd (render (snd (onmessage e TurnComplete (L, s))))) = messages s"
  using assms setText_fresh [of None "messages s" "currentInputTranscription L"]
  by (simp add: render_def onmessage_def TurnComplete_def on_turnComplete_def on_audio_def
        base64Audio_of_def truthy_def Let_def)

text \<open>
  \<^bold>\<open>C4.\<close> The run of the code on the input deltas \<open>Hel\<close> and \<open>lo\<close> followed by the end of
  the turn, from the initial message list. With a render after each message the record of
  the turn ends with the text \<open>*Hello*\<close>: the updater of line 215 runs after line 219 has
  set \<^verbatim>\<open>userInputId\<close> to \<^verbatim>\<open>null\<close> and finds no record. When the second delta and the end of
  the turn are handled before the next render, the updater of line 198 finds no record
  either and the text stays \<open>*Hel*\<close>. When one message carries the whole input and the
  end of the turn, the updater of line 196 appends a record whose identifier is \<^verbatim>\<open>null\<close>.
  In each run the buffers and the handles are reset.
\<close>

theorem turn_complete_keeps_marker:
  "messages (snd (session_steps
      [Receive \<lparr>now_input = 1700000000000, now_output = 1700000000000, currentTime = 0\<rparr>
         (InputTranscriptDelta ''Hel''),
       Render,
       Receive \<lparr>now_input = 1700000000050, now_output = 1700000000050, currentTime = 0\<rparr>
         (InputTranscriptDelta ''lo''),
       Render,
       Receive \<lparr>now_input = 1700000000100, now_output = 1700000000100, currentTime = 0\<rparr>
         TurnComplete,
       Render]
      (new_live_state 0, initial_state)))
   = initial_messages
     @ [\<lparr>id_msg = Some ''1700000000000'', role = USER, text_msg = ''*Hello*'', sources = None,
         isLoading_msg = None\<rparr>]
   \<and> messages (snd (session_steps
      [Receive \<lparr>now_input = 1700000000000, now_output = 1700000000000, currentTime = 0\<rparr>
         (InputTranscriptDelta ''Hel''),
       Render,
       Receive \<lparr>now_input = 1700000000050, now_output = 1700000000050, currentTime = 0\<rparr>
         (InputTranscriptDelta ''lo''),
       Receive \<lparr>now_input = 1700000000100, now_output = 1700000000100, currentTime = 0\<rparr>
         TurnComplete,
       Render]
      (new_live_state 0, initial_state)))
   = initial_messages
     @ [\<lparr>id_msg = Some ''1700000000000'', role = USER, text_msg = ''*Hel*'', sources = None,
         isLoading_msg = None\<rparr>]
   \<and> messages (snd (session_steps
      [Receive \<lparr>now_input = 1700000000000, now_output = 1700000000000, currentTime = 0\<rparr>
         \<lparr>inputTranscription = Some (Some ''Hello''), outputTranscription = None,
          turnComplete = True, modelTurn = None\<rparr>,
       Render]
      (new_live_state 0, initial_state)))
   = initial_messages
     @ [\<lparr>id_msg = None, role = USER, text_msg = ''Hello'', sources = None,
         isLoading_msg = None\<rparr>]
   \<and> fst (session_steps
      [Receive \<lparr>now_input = 1700000000000, now_output = 1700000000000, currentTime = 0\<rparr>
         (InputTranscriptDelta ''Hel''),
       Render,
       Receive \<lparr>now_input = 1700000000050, now_output = 1700000000050, currentTime = 0\<rparr>
         (InputTranscriptDelta ''lo''),
       Render,
       Receive \<lparr>now_input = 1700000000100, now_output = 1700000000100, currentTime = 0\<rparr>
         TurnComplete,
       Render]
      (new_live_state 0, initial_state))
   = new_live_state 0"
proof -
  have n: "Number_toString 1700000000000 = ''1700000000000''"
    by (simp add: Number_toString.simps digit_def)
  show ?thesis
    by (simp add: n render_def onmessage_def InputTranscriptDelta_def TurnComplete_def
          on_inputTranscription_def on_turnComplete_def on_audio_def base64Audio_of_def
          truthy_def text_or_undefined_def setText_def new_live_state_def initial_state_def
          initial_messages_def Let_def)
qed

subsection \<open>Stopping and starting a session\<close>

lemma stopListening_eq:
  "stopListening s =
     (None,
      s\<lparr>sessions := (case sessionPromiseRef s of
                       None \<Rightarrow> sessions s
                     | Some h \<Rightarrow> (sessions s)[h := False]),
        sessionPromiseRef := None,
        mediaStreams := (case mediaStreamRef s of
                           None \<Rightarrow> mediaStreams s
                         | Some h \<Rightarrow> (mediaStreams s)[h := False]),
        mediaStreamRef := None,
        scriptProcessors := (case scriptProcessorRef s of
                               None \<Rightarrow> scriptProcessors s
                             | Some h \<Rightarrow> (scriptProcessors s)[h := False]),
        scriptProcessorRef := None,
        audioContexts := (case audioContextRef s of
                            None \<Rightarrow> audioContexts s
                          | Some h \<Rightarrow> (audioContexts s)[h := closed]),
        audioContextRef := (case audioContextRef s of
                              None \<Rightarrow> None
                            | Some h \<Rightarrow> if audioContexts s ! h = closed then Some h else None),
        isListening := False\<rparr>)"
proof -
  have same: "audioContexts s ! h = closed \<Longrightarrow> (audioContexts s)[h := closed] = audioContexts s"
    for h by (metis list_update_id)
  show ?thesis
    by (cases "sessionPromiseRef s"; cases "mediaStreamRef s"; cases "scriptProcessorRef s";
        cases "audioContextRef s")
       (simp_all add: stopListening_def AudioContext_close_def Let_def same)
qed

lemma stopListening_no_error: "fst (stopListening s) = None"
  by (simp add: stopListening_eq)

lemma stopListening_refs:
  "sessionPromiseRef (snd (stopListening s)) = None"
  "mediaStreamRef (snd (stopListening s)) = None"
  "scriptProcessorRef (snd (stopListening s)) = None"
  "\<not> isListening (snd (stopListening s))"
  by (simp_all add: stopListening_eq)

lemma stopListening_audioContextRef:
  "audioContextRef (snd (stopListening s)) =
     (case audioContextRef s of
        None \<Rightarrow> None
      | Some ctx \<Rightarrow> if audioContexts s ! ctx = closed then Some ctx else None)"
  by (simp add: stopListening_eq)

lemma stopListening_released:
  "sessionPromiseRef s = Some h \<and> h < length (sessions s) \<longrightarrow>
     \<not> sessions (snd (stopListening s)) ! h"
  "mediaStreamRef s = Some h \<and> h < length (mediaStreams s) \<longrightarrow>
     \<not> mediaStreams (snd (stopListening s)) ! h"
  "scriptProcessorRef s = Some h \<and> h < length (scriptProcessors s) \<longrightarrow>
     \<not> scriptProcessors (snd (stopListening s)) ! h"
  "audioContextRef s = Some h \<and> h < length (audioContexts s) \<longrightarrow>
     audioContexts (snd (stopListening s)) ! h = closed"
  by (simp_all add: stopListening_eq)

lemma stopListening_idle:
  assumes "sessionPromiseRef s = None" "mediaStreamRef s = None" "scriptProcessorRef s = None"
    and "audioContextRef s = None
         \<or> (\<exists>ctx. audioContextRef s = Some ctx \<and> audioContexts s ! ctx = closed)"
    and "\<not> isListening s"
  shows "stopListening s = (None, s)"
proof -
  have same: "audioContexts s ! h = closed \<Longrightarrow> (audioContexts s)[h := closed] = audioContexts s"
    for h by (metis list_update_id)
  from assms(4) show ?thesis
  proof
    assume "audioContextRef s = None"
    then show ?thesis using assms(1,2,3,5) by (simp add: stopListening_eq)
  next
    assume "\<exists>ctx. audioContextRef s = Some ctx \<and> audioContexts s ! ctx = closed"
    then obtain ctx where "audioContextRef s = Some ctx" "audioContexts s ! ctx = closed"
      by blast
    then show ?thesis using assms(1,2,3,5) same [of ctx] by (simp add: stopListening_eq)
  qed
qed

lemma stopListening_twice: "stopListening (snd (stopListening s)) = (None, snd (stopListening s))"
proof (rule stopListening_idle)
  show "audioContextRef (snd (stopListening s)) = None
      \<or> (\<exists>ctx. audioContextRef (snd (stopListening s)) = Some ctx
              \<and> audioContexts (snd (stopListening s)) ! ctx = closed)"
  proof (cases "audioContextRef s")
    case None
    then show ?thesis by (simp add: stopListening_eq)
  next
    case (Some h)
    show ?thesis
    proof (cases "audioContexts s ! h = closed")
      case True
      then have "(audioContexts s)[h := closed] = audioContexts s" by (metis list_update_id)
      with Some True show ?thesis by (simp add: stopListening_eq)
    next
      case False
      with Some show ?thesis by (simp add: stopListening_eq)
    qed
  qed
qed (simp_all add: stopListening_refs)

lemma active_state_eq:
  "active_state =
     \<lparr>messages = initial_messages, input = [], isListening = True, isLoading = False,
      isApiKeyReady = False, chatRef = None, sessionPromiseRef = Some 0,
      mediaStreamRef = Some 0, audioContextRef = Some 1, scriptProcessorRef = Some 0,
      sessions = [True], mediaStreams = [True], scriptProcessors = [True],
      audioContexts = [running, running]\<rparr>"
  by (simp add: active_state_def startListening_def onopen_def mic_granted_def
        initial_state_def Let_def)

lemma active_live_eq: "active_live = new_live_state 0"
  by (simp add: active_live_def startListening_def mic_granted_def initial_state_def Let_def)

lemma stop_active_state:
  "stopListening active_state =
     (None,
      \<lparr>messages = initial_messages, input = [], isListening = False, isLoading = False,
       isApiKeyReady = False, chatRef = None, sessionPromiseRef = None,
       mediaStreamRef = None, audioContextRef = None, scriptProcessorRef = None,
       sessions = [False], mediaStreams = [False], scriptProcessors = [False],
       audioContexts = [running, closed]\<rparr>)"
  by (simp add: active_state_eq stopListening_eq)

text \<open>
  \<^bold>\<open>C6.\<close> \<^verbatim>\<open>stopListening\<close> never ends with an error, and a second call right after the first
  changes nothing and ends without an error as well. After the call the refs of the
  session, the stream and the processing node are \<^verbatim>\<open>null\<close> and the listening flag is off;
  the ref of the capture context is \<^verbatim>\<open>null\<close> whenever it did not hold a context that was
  closed already; the objects the refs pointed to are closed, stopped and disconnected.
  On a state with no session (all refs \<^verbatim>\<open>null\<close>, not listening), as the initial one, the
  call is a no-op.
\<close>

theorem stopListening_idempotent:
  "fst (stopListening s) = None
   \<and> stopListening (snd (stopListening s)) = (None, snd (stopListening s))
   \<and> sessionPromiseRef (snd (stopListening s)) = None
   \<and> mediaStreamRef (snd (stopListening s)) = None
   \<and> scriptProcessorRef (snd (stopListening s)) = None
   \<and> \<not> isListening (snd (stopListening s))
   \<and> ((\<forall>ctx. audioContextRef s = Some ctx \<longrightarrow> audioContexts s ! ctx \<noteq> closed) \<longrightarrow>
        audioContextRef (snd (stopListening s)) = None)
   \<and> (\<forall>h. sessionPromiseRef s = Some h \<and> h < length (sessions s) \<longrightarrow>
          \<not> sessions (snd (stopListening s)) ! h)
   \<and> (\<forall>h. mediaStreamRef s = Some h \<and> h < length (mediaStreams s) \<longrightarrow>
          \<not> mediaStreams (snd (stopListening s)) ! h)
   \<and> (\<forall>h. scriptProcessorRef s = Some h \<and> h < length (scriptProcessors s) \<longrightarrow>
          \<not> scriptProcessors (snd (stopListening s)) ! h)
   \<and> (\<forall>h. audioContextRef s = Some h \<and> h < length (audioContexts s) \<longrightarrow>
          audioContexts (snd (stopListening s)) ! h = closed)
   \<and> (sessionPromiseRef s = None \<and> mediaStreamRef s = None \<and> scriptProcessorRef s = None
        \<and> audioContextRef s = None \<and> \<not> isListening s \<longrightarrow> stopListening s = (None, s))
   \<and> stopListening initial_state = (None, initial_state)"
proof -
  have a: "(\<forall>ctx. audioContextRef s = Some ctx \<longrightarrow> audioContexts s ! ctx \<noteq> closed) \<longrightarrow>
        audioContextRef (snd (stopListening s)) = None"
    by (simp add: stopListening_audioContextRef split: option.splits)
  have idle: "sessionPromiseRef s = None \<and> mediaStreamRef s = None \<and> scriptProcessorRef s = None
        \<and> audioContextRef s = None \<and> \<not> isListening s \<longrightarrow> stopListening s = (None, s)"
    using stopListening_idle [of s] by blast
  have init: "stopListening initial_state = (None, initial_state)"
    by (rule stopListening_idle) (simp_all add: initial_state_def)
  have rel: "\<forall>h. sessionPromiseRef s = Some h \<and> h < length (sessions s) \<longrightarrow>
          \<not> sessions (snd (stopListening s)) ! h"
    "\<forall>h. mediaStreamRef s = Some h \<and> h < length (mediaStreams s) \<longrightarrow>
          \<not> mediaStreams (snd (stopListening s)) ! h"
    "\<forall>h. scriptProcessorRef s = Some h \<and> h < length (scriptProcessors s) \<longrightarrow>
          \<not> scriptProcessors (snd (stopListening s)) ! h"
    "\<forall>h. audioContextRef s = Some h \<and> h < length (audioContexts s) \<longrightarrow>
          audioContexts (snd (stopListening s)) ! h = closed"
    using stopListening_released [of s] by blast+
  show ?thesis
    by (intro conjI stopListening_no_error stopListening_twice stopListening_refs a rel idle init)
qed

theorem stopListening_idempotent_witness:
  "audioContextRef (snd (stopListening active_state)) = None
   \<and> \<not> sessions (snd (stopListening active_state)) ! 0
   \<and> \<not> mediaStreams (snd (stopListening active_state)) ! 0
   \<and> \<not> scriptProcessors (snd (stopListening active_state)) ! 0
   \<and> audioContexts (snd (stopListening active_state)) ! 1 = closed
   \<and> stopListening (snd (stopListening active_state)) = (None, snd (stopListening active_state))
   \<and> stopListening (snd (stopListening initial_state)) = (None, initial_state)"
proof -
  note t = stopListening_idempotent [of active_state]
  note i = stopListening_idempotent [of initial_state]
  have h: "\<forall>ctx. audioContextRef active_state = Some ctx \<longrightarrow>
             audioContexts active_state ! ctx \<noteq> closed"
    by (simp add: active_state_eq)
  have r: "sessionPromiseRef active_state = Some 0 \<and> 0 < length (sessions active_state)"
    "mediaStreamRef active_state = Some 0 \<and> 0 < length (mediaStreams active_state)"
    "scriptProcessorRef active_state = Some 0 \<and> 0 < length (scriptProcessors active_state)"
    "audioContextRef active_state = Some 1 \<and> 1 < length (audioContexts active_state)"
    by (simp_all add: active_state_eq)
  have n: "sessionPromiseRef initial_state = None \<and> mediaStreamRef initial_state = None
        \<and> scriptProcessorRef initial_state = None \<and> audioContextRef initial_state = None
        \<and> \<not> isListening initial_state"
    by (simp add: initial_state_def)
  have "stopListening initial_state = (None, initial_state)" using i n by blast
  then have "stopListening (snd (stopListening initial_state)) = (None, initial_state)" by simp
  with t h r show ?thesis by blast
qed

text \<open>
  \<^bold>\<open>C7.\<close> A call of \<^verbatim>\<open>startListening\<close> while the application is listening is not
  rejected: it returns normally, having done exactly what \<^verbatim>\<open>stopListening\<close> does, and
  starts no session. No path of the function ends with \<open>AlreadyActiveError\<close>.
\<close>

theorem startListening_toggles_off:
  "(isListening s \<longrightarrow>
      startListening env s = Inr (snd (stopListening s), None)
      \<and> \<not> isListening (fst (projr (startListening env s)))
      \<and> sessions (fst (projr (startListening env s))) = (case sessionPromiseRef s of
            None \<Rightarrow> sessions s | Some h \<Rightarrow> (sessions s)[h := False]))
   \<and> startListening env s \<noteq> Inl AlreadyActiveError"
proof -
  have "sessions (snd (stopListening s)) = (case sessionPromiseRef s of
            None \<Rightarrow> sessions s | Some h \<Rightarrow> (sessions s)[h := False])"
    by (simp add: stopListening_eq)
  moreover have "startListening env s \<noteq> Inl AlreadyActiveError"
    by (simp add: startListening_def Let_def split: outcome.splits)
  ultimately show ?thesis
    by (simp add: startListening_def stopListening_refs)
qed

theorem startListening_toggles_off_witness:
  "isListening active_state
   \<and> startListening mic_granted active_state = Inr (snd (stopListening active_state), None)
   \<and> sessions (fst (projr (startListening mic_granted active_state))) = [False]"
proof -
  have l: "isListening active_state" by (simp add: active_state_eq)
  have r: "sessionPromiseRef active_state = Some 0" "sessions active_state = [True]"
    by (simp_all add: active_state_eq)
  note t = startListening_toggles_off [of active_state mic_granted]
  from t l have a: "startListening mic_granted active_state
      = Inr (snd (stopListening active_state), None)"
    and b: "sessions (fst (projr (startListening mic_granted active_state)))
      = (case sessionPromiseRef active_state of
           None \<Rightarrow> sessions active_state
         | Some h \<Rightarrow> (sessions active_state)[h := False])"
    by blast+
  from b have "sessions (fst (projr (startListening mic_granted active_state))) = [False]"
    by (simp only: r option.case list_update_code)
  with l a show ?thesis by blast
qed

theorem startListening_active_counterexample:
  "isListening active_state
   \<and> startListening mic_granted active_state \<noteq> Inl AlreadyActiveError
   \<and> \<not> isListening (fst (projr (startListening mic_granted active_state)))"
  by (simp add: active_state_eq startListening_def stopListening_eq)

subsection \<open>Fatal errors\<close>

lemma onerror_one_system_message:
  "\<exists>m. messages (snd (onerror now e s)) = messages s @ [m] \<and> role m = SYSTEM"
  "\<exists>m. messages (snd (onerror_part000 now e s)) = messages s @ [m] \<and> role m = SYSTEM"
  by (simp_all add: onerror_def onerror_part000_def handleApiError_def stopListening_eq Let_def)

lemma device_error_one_system_message:
  assumes "\<not> isListening s" and "getUserMedia env = Rejected e"
  shows "startListening env s =
     Inr (s\<lparr>messages := messages s
             @ [\<lparr>id_msg = Some (Number_toString (now_start env)), role = SYSTEM,
                 text_msg = ''Could not access microphone. Please check permissions.'',
                 sources = None, isLoading_msg = None\<rparr>]\<rparr>, None)"
  using assms by (cases s) (simp add: startListening_def startListening_catch_def)

text \<open>
  \<^bold>\<open>C8.\<close> After a channel error on the started and opened session, \<^verbatim>\<open>onerror\<close> has appended
  one system message and run \<^verbatim>\<open>stopListening\<close>, which closes the capture context of the
  ref; the output audio context of the session, created by \<^verbatim>\<open>startListening\<close> and held in
  no ref, is still running. And when a constructor throws after the microphone was
  granted, the \<^verbatim>\<open>catch\<close> clears the listening flag and appends its message only: the
  stream is still live and still in its ref.
\<close>

theorem fatal_error_leaves_resources:
  "audioContexts (snd (onerror 1700000000500 ''network'' active_state))
       ! outputAudioContext active_live = running
   \<and> audioContexts (snd (onerror_part000 1700000000500 ''network'' active_state))
       ! outputAudioContext active_live = running
   \<and> audioContextRef (snd (onerror 1700000000500 ''network'' active_state)) = None
   \<and> startListening
        \<lparr>getUserMedia = Resolved (),
         constructors = Rejected (ErrorObject ''Failed to construct AudioContext''),
         now_start = 1700000000000\<rparr> initial_state
      = Inr (initial_state
               \<lparr>mediaStreams := [True], mediaStreamRef := Some 0,
                messages := initial_messages
                  @ [\<lparr>id_msg = Some ''1700000000000'', role = SYSTEM,
                      text_msg = ''Could not access microphone. Please check permissions.'',
                      sources = None, isLoading_msg = None\<rparr>]\<rparr>, None)"
proof -
  have n: "Number_toString 1700000000000 = ''1700000000000''"
    by (simp add: Number_toString.simps digit_def)
  have 1: "audioContexts (snd (onerror 1700000000500 ''network'' active_state))
       ! outputAudioContext active_live = running"
    "audioContextRef (snd (onerror 1700000000500 ''network'' active_state)) = None"
    by (simp_all add: onerror_def active_state_eq active_live_eq new_live_state_def
          stopListening_eq)
  have 2: "audioContexts (snd (onerror_part000 1700000000500 ''network'' active_state))
       ! outputAudioContext active_live = running"
    by (simp add: onerror_part000_def handleApiError_def errorMessage_of_def active_state_eq
          active_live_eq new_live_state_def stopListening_eq Let_def)
  have 3: "startListening
        \<lparr>getUserMedia = Resolved (),
         constructors = Rejected (ErrorObject ''Failed to construct AudioContext''),
         now_start = 1700000000000\<rparr> initial_state
      = Inr (initial_state
               \<lparr>mediaStreams := [True], mediaStreamRef := Some 0,
                messages := initial_messages
                  @ [\<lparr>id_msg = Some ''1700000000000'', role = SYSTEM,
                      text_msg = ''Could not access microphone. Please check permissions.'',
                      sources = None, isLoading_msg = None\<rparr>]\<rparr>, None)"
    by (simp add: startListening_def startListening_catch_def n initial_state_def Let_def)
  from 1 2 3 show ?thesis by blast
qed

subsection \<open>Handlers interleaved at the await\<close>

lemma set_remove_nth: "set (remove_nth i xs) \<subseteq> set xs"
  using set_take_subset [of i xs] set_drop_subset [of "Suc i" xs] by auto

lemma audio_arrive_inv:
  assumes "successively (\<lambda>e e'. startTime e + duration (buffer e) \<le> startTime e') (started L)"
    and "\<forall>e \<in> set (started L). clockAtEnqueue e \<le> startTime e
           \<and> startTime e + duration (buffer e) \<le> nextStartTime L"
    and "\<forall>c \<in> set waiting. c \<le> nextStartTime L"
  shows "successively (\<lambda>e e'. startTime e + duration (buffer e) \<le> startTime e')
           (started (audio_arrive clock L))"
    and "\<forall>e \<in> set (started (audio_arrive clock L)). clockAtEnqueue e \<le> startTime e
           \<and> startTime e + duration (buffer e) \<le> nextStartTime (audio_arrive clock L)"
    and "\<forall>c \<in> set (waiting @ [clock]). c \<le> nextStartTime (audio_arrive clock L)"
    and "nextStartTime L \<le> nextStartTime (audio_arrive clock L)"
proof -
  have s: "started (audio_arrive clock L) = started L"
    and n: "nextStartTime (audio_arrive clock L) = max (nextStartTime L) clock"
    by (simp_all add: audio_arrive_def)
  show "successively (\<lambda>e e'. startTime e + duration (buffer e) \<le> startTime e')
           (started (audio_arrive clock L))"
    using assms(1) by (simp only: s)
  show "\<forall>e \<in> set (started (audio_arrive clock L)). clockAtEnqueue e \<le> startTime e
           \<and> startTime e + duration (buffer e) \<le> nextStartTime (audio_arrive clock L)"
  proof
    fix e assume "e \<in> set (started (audio_arrive clock L))"
    then have "clockAtEnqueue e \<le> startTime e
        \<and> startTime e + duration (buffer e) \<le> nextStartTime L"
      using assms(2) s by simp
    then show "clockAtEnqueue e \<le> startTime e
        \<and> startTime e + duration (buffer e) \<le> nextStartTime (audio_arrive clock L)"
      unfolding n by linarith
  qed
  show "\<forall>c \<in> set (waiting @ [clock]). c \<le> nextStartTime (audio_arrive clock L)"
  proof
    fix c assume "c \<in> set (waiting @ [clock])"
    then have "c \<in> set waiting \<or> c = clock" by auto
    then have "c \<le> nextStartTime L \<or> c = clock" using assms(3) by blast
    then show "c \<le> nextStartTime (audio_arrive clock L)"
      unfolding n by linarith
  qed
  show "nextStartTime L \<le> nextStartTime (audio_arrive clock L)"
    unfolding n by linarith
qed

lemma audio_resume_inv:
  assumes "successively (\<lambda>e e'. startTime e + duration (buffer e) \<le> startTime e') (started L)"
    and "\<forall>e \<in> set (started L). clockAtEnqueue e \<le> startTime e
           \<and> startTime e + duration (buffer e) \<le> nextStartTime L"
    and "\<forall>c \<in> set waiting. c \<le> nextStartTime L"
    and "i < length waiting"
  shows "successively (\<lambda>e e'. startTime e + duration (buffer e) \<le> startTime e')
           (started (audio_resume b (waiting ! i) L))"
    and "\<forall>e \<in> set (started (audio_resume b (waiting ! i) L)). clockAtEnqueue e \<le> startTime e
           \<and> startTime e + duration (buffer e) \<le> nextStartTime (audio_resume b (waiting ! i) L)"
    and "\<forall>c \<in> set (remove_nth i waiting). c \<le> nextStartTime (audio_resume b (waiting ! i) L)"
    and "nextStartTime L \<le> nextStartTime (audio_resume b (waiting ! i) L)"
proof -
  let ?new = "\<lparr>startTime = nextStartTime L, buffer = b, clockAtEnqueue = waiting ! i\<rparr>"
  have s: "started (audio_resume b (waiting ! i) L) = started L @ [?new]"
    and n: "nextStartTime (audio_resume b (waiting ! i) L) = nextStartTime L + duration b"
    by (simp_all add: audio_resume_def)
  have d: "0 \<le> duration b" by (rule duration_nonneg)
  have c: "waiting ! i \<le> nextStartTime L" using assms(3) nth_mem [OF assms(4)] by blast
  have last: "started L \<noteq> [] \<Longrightarrow>
      startTime (last (started L)) + duration (buffer (last (started L))) \<le> nextStartTime L"
    using assms(2) last_in_set [of "started L"] by fastforce
  show "successively (\<lambda>e e'. startTime e + duration (buffer e) \<le> startTime e')
           (started (audio_resume b (waiting ! i) L))"
  proof -
    have "started L = []
        \<or> startTime (last (started L)) + duration (buffer (last (started L))) \<le> nextStartTime L"
      using last by blast
    then show ?thesis
      unfolding s successively_append_iff using assms(1) by simp
  qed
  show "\<forall>e \<in> set (started (audio_resume b (waiting ! i) L)). clockAtEnqueue e \<le> startTime e
           \<and> startTime e + duration (buffer e) \<le> nextStartTime (audio_resume b (waiting ! i) L)"
  proof
    fix e assume "e \<in> set (started (audio_resume b (waiting ! i) L))"
    then consider "e \<in> set (started L)" | "e = ?new" unfolding s by auto
    then show "clockAtEnqueue e \<le> startTime e
        \<and> startTime e + duration (buffer e) \<le> nextStartTime (audio_resume b (waiting ! i) L)"
    proof cases
      case 1
      then have "clockAtEnqueue e \<le> startTime e
          \<and> startTime e + duration (buffer e) \<le> nextStartTime L"
        using assms(2) by blast
      then show ?thesis unfolding n using d by linarith
    next
      case 2
      then show ?thesis unfolding n using c by simp
    qed
  qed
  show "\<forall>c \<in> set (remove_nth i waiting). c \<le> nextStartTime (audio_resume b (waiting ! i) L)"
  proof
    fix x assume "x \<in> set (remove_nth i waiting)"
    then have "x \<in> set waiting" by (rule subsetD [OF set_remove_nth])
    then have "x \<le> nextStartTime L" using assms(3) by blast
    then show "x \<le> nextStartTime (audio_resume b (waiting ! i) L)"
      unfolding n using d by linarith
  qed
  show "nextStartTime L \<le> nextStartTime (audio_resume b (waiting ! i) L)"
    unfolding n using d by linarith
qed

lemma audio_steps_inv:
  assumes "successively (\<lambda>e e'. startTime e + duration (buffer e) \<le> startTime e') (started L)"
    and "\<forall>e \<in> set (started L). clockAtEnqueue e \<le> startTime e
           \<and> startTime e + duration (buffer e) \<le> nextStartTime L"
    and "\<forall>c \<in> set waiting. c \<le> nextStartTime L"
  shows "successively (\<lambda>e e'. startTime e + duration (buffer e) \<le> startTime e')
           (started (snd (audio_steps steps (waiting, L))))
       \<and> (\<forall>e \<in> set (started (snd (audio_steps steps (waiting, L)))).
             clockAtEnqueue e \<le> startTime e)
       \<and> nextStartTime L \<le> nextStartTime (snd (audio_steps steps (waiting, L)))"
  using assms
proof (induction steps arbitrary: waiting L)
  case Nil
  have "\<forall>e \<in> set (started L). clockAtEnqueue e \<le> startTime e"
    using Nil.prems(2) by blast
  with Nil.prems(1) show ?case by simp
next
  case (Cons step steps)
  have skip: "successively (\<lambda>e e'. startTime e + duration (buffer e) \<le> startTime e')
           (started (snd (audio_steps steps (waiting, L))))
       \<and> (\<forall>e \<in> set (started (snd (audio_steps steps (waiting, L)))).
             clockAtEnqueue e \<le> startTime e)
       \<and> nextStartTime L \<le> nextStartTime (snd (audio_steps steps (waiting, L)))"
    by (rule Cons.IH [OF Cons.prems])
  show ?case
  proof (cases step)
    case (Arrive clock)
    have eq: "audio_steps (step # steps) (waiting, L)
        = audio_steps steps (waiting @ [clock], audio_arrive clock L)"
      by (simp only: Arrive audio_steps.simps)
    note a = audio_arrive_inv [OF Cons.prems, of clock]
    note ih = Cons.IH [OF a(1) a(2) a(3)]
    have mono: "nextStartTime L
        \<le> nextStartTime (snd (audio_steps steps (waiting @ [clock], audio_arrive clock L)))"
      by (rule order_trans [OF a(4) ih [THEN conjunct2, THEN conjunct2]])
    show ?thesis
      unfolding eq
      by (intro conjI ih [THEN conjunct1] ih [THEN conjunct2, THEN conjunct1] mono)
  next
    case (Resume i b)
    show ?thesis
    proof (cases "i < length waiting")
      case True
      have eq: "audio_steps (step # steps) (waiting, L)
          = audio_steps steps (remove_nth i waiting, audio_resume b (waiting ! i) L)"
        using True by (simp only: Resume audio_steps.simps if_True)
      note a = audio_resume_inv [OF Cons.prems True, of b]
      note ih = Cons.IH [OF a(1) a(2) a(3)]
      have mono: "nextStartTime L
          \<le> nextStartTime (snd (audio_steps steps
                (remove_nth i waiting, audio_resume b (waiting ! i) L)))"
        by (rule order_trans [OF a(4) ih [THEN conjunct2, THEN conjunct2]])
      show ?thesis
        unfolding eq
        by (intro conjI ih [THEN conjunct1] ih [THEN conjunct2, THEN conjunct1] mono)
    next
      case False
      have eq: "audio_steps (step # steps) (waiting, L) = audio_steps steps (waiting, L)"
        using False by (simp only: Resume audio_steps.simps if_False)
      show ?thesis unfolding eq by (rule skip)
    qed
  next
    case (Fail i)
    show ?thesis
    proof (cases "i < length waiting")
      case True
      have eq: "audio_steps (step # steps) (waiting, L)
          = audio_steps steps (remove_nth i waiting, L)"
        using True by (simp only: Fail audio_steps.simps if_True)
      have w: "\<forall>c \<in> set (remove_nth i waiting). c \<le> nextStartTime L"
      proof
        fix c assume "c \<in> set (remove_nth i waiting)"
        then have "c \<in> set waiting" by (rule subsetD [OF set_remove_nth])
        then show "c \<le> nextStartTime L" using Cons.prems(3) by blast
      qed
      show ?thesis unfolding eq by (rule Cons.IH [OF Cons.prems(1,2) w])
    next
      case False
      have eq: "audio_steps (step # steps) (waiting, L) = audio_steps steps (waiting, L)"
        using False by (simp only: Fail audio_steps.simps if_False)
      show ?thesis unfolding eq by (rule skip)
    qed
  qed
qed

text \<open>The schedule stays free of overlap and of starts in the past when the handlers of
  several chunks are interleaved at the \<^verbatim>\<open>await\<close> in any order: the second half reads the
  cursor when it runs.\<close>

lemma audio_steps_no_overlap:
  assumes "L = snd (audio_steps steps ([], new_live_state ctx))"
  shows "(\<forall>i. Suc i < length (started L) \<longrightarrow>
            startTime (started L ! i) + duration (buffer (started L ! i))
              \<le> startTime (started L ! Suc i))
       \<and> (\<forall>e \<in> set (started L). clockAtEnqueue e \<le> startTime e)
       \<and> nextStartTime (new_live_state ctx) \<le> nextStartTime L"
proof -
  have "successively (\<lambda>e e'. startTime e + duration (buffer e) \<le> startTime e')
          (started (new_live_state ctx))"
    "\<forall>e \<in> set (started (new_live_state ctx)). clockAtEnqueue e \<le> startTime e
       \<and> startTime e + duration (buffer e) \<le> nextStartTime (new_live_state ctx)"
    "\<forall>c \<in> set ([] :: real list). c \<le> nextStartTime (new_live_state ctx)"
    by (simp_all add: new_live_state_def)
  from audio_steps_inv [OF this, of steps, folded assms]
  show ?thesis by (simp add: successively_conv_nth)
qed

lemma audio_steps_example:
  "map startTime (started (snd (audio_steps
      [Arrive 1, Arrive 2,
       Resume 1 \<lparr>numberOfChannels = 1, frameCount = 24000, sampleRate = 24000\<rparr>,
       Resume 0 \<lparr>numberOfChannels = 1, frameCount = 12000, sampleRate = 24000\<rparr>]
      ([], new_live_state 0)))) = [2, 3]"
  by (simp add: audio_arrive_def audio_resume_def new_live_state_def duration_def)

subsection \<open>Further properties of the framer and of the reconciler\<close>

lemma length_int16_bytes: "length (int16_bytes int16) = 2 * length int16"
  by (induction int16) (simp_all add: int16_bytes_def)

text \<open>The blob of a capture callback of \<open>N\<close> samples carries \<open>4 * \<lceil>2 * N / 3\<rceil>\<close> characters
  and the fixed MIME type, and goes to the session of the ref.\<close>

lemma onaudioprocess_blob:
  assumes "sessionPromiseRef s = Some session"
  shows "\<exists>blob. onaudioprocess inputData s = Some (session, blob)
           \<and> length (data_blob blob) = 4 * ((2 * length inputData + 2) div 3)
           \<and> mimeType blob = ''audio/pcm;rate=16000''"
  using assms
  by (simp add: onaudioprocess_def Let_def length_encode length_int16_bytes pcm_frame_map)

text \<open>A turn of output deltas only, rendered after each message, leaves one record, of
  role \<open>AI\<close>, and no user record.\<close>

lemma output_only_turn:
  assumes "\<not> truthy (aiResponseId L)" and "userInputId L = None" and "queued L = []"
    and "currentOutputTranscription L = []" and "None \<notin> id_msg ` set (messages s)"
  shows "messages (snd (session_steps
            [Receive e (OutputTranscriptDelta d), Render, Receive eT TurnComplete, Render] (L, s)))
     = messages s @ [\<lparr>id_msg = Some (Number_toString (now_output e + 1)), role = AI,
                      text_msg = d, sources = None, isLoading_msg = None\<rparr>]"
proof -
  have "setText None t (messages s) = messages s" for t
    using assms(5) by (rule setText_fresh)
  then have "setText None t
      (messages s @ [\<lparr>id_msg = Some (Number_toString (now_output e + 1)), role = AI,
                      text_msg = d, sources = None, isLoading_msg = None\<rparr>])
     = messages s @ [\<lparr>id_msg = Some (Number_toString (now_output e + 1)), role = AI,
                      text_msg = d, sources = None, isLoading_msg = None\<rparr>]" for t
    by (simp add: setText_def)
  then show ?thesis
    using assms(1-4)
    by (simp add: render_def onmessage_def TurnComplete_def OutputTranscriptDelta_def
          on_turnComplete_def on_outputTranscription_def on_audio_def base64Audio_of_def
          truthy_def text_or_undefined_def Let_def)
qed

end
